theory Spec2Isabelle
  imports Main "HOL-Library.Multiset" "HOL-Library.AList" "HOL-Library.Sublist"
begin

section \<open>Data model (src/types/index.ts)\<close>

text \<open>
  \<^verbatim>\<open>ContentType = { STORY: 'Story', POEM: 'Poetry', QUOTE: 'Quote' }\<close>; the optional
  fields of \<^verbatim>\<open>ContentItem\<close> are options. The field \<^verbatim>\<open>id\<close> is called \<open>itemId\<close>
  here, \<^verbatim>\<open>type\<close> is \<open>itemType\<close>.
\<close>

datatype ContentTypeValue = STORY | POEM | QUOTE

record ContentItem =
  itemId :: string
  itemType :: ContentTypeValue
  title :: "string option"
  body :: string
  excerpt :: "string option"
  date :: "string option"

record SiteSettings =
  siteTitle :: string
  siteDescription :: string
  authorName :: string
  authorBio :: string
  authorRoles :: "string list"

record ContentMeta =
  contentOrder :: "string list"

section \<open>Ordering by the ledger (fetchContent, "Sort by content order")\<close>

text \<open>
  The comparator subtracts two JavaScript numbers that are either an index of the ledger
  or \<^verbatim>\<open>Infinity\<close>. The four kinds of value such a subtraction can give are kept apart:
  \<^verbatim>\<open>Infinity - Infinity\<close> is \<^verbatim>\<open>NaN\<close>.
\<close>

datatype jsnum = Fin int | PosInf | NegInf | NaN

fun jsMinus :: "jsnum \<Rightarrow> jsnum \<Rightarrow> jsnum" where
  "jsMinus (Fin a) (Fin b) = Fin (a - b)"
| "jsMinus (Fin a) PosInf = NegInf"
| "jsMinus (Fin a) NegInf = PosInf"
| "jsMinus PosInf (Fin b) = PosInf"
| "jsMinus PosInf NegInf = PosInf"
| "jsMinus PosInf PosInf = NaN"
| "jsMinus NegInf (Fin b) = NegInf"
| "jsMinus NegInf PosInf = NegInf"
| "jsMinus NegInf NegInf = NaN"
| "jsMinus NaN y = NaN"
| "jsMinus x NaN = NaN"

text \<open>
  \<^verbatim>\<open>new Map(contentOrder.map((id, index) => [id, index]))\<close>: the entries are set one
  after the other, so a later entry for the same id replaces an earlier one.
\<close>

definition orderMapOf :: "string list \<Rightarrow> (string \<rightharpoonup> nat)" where
  "orderMapOf order =
     fold (\<lambda>(index, k) m. m(k \<mapsto> index)) (enumerate 0 order) Map.empty"

text \<open>\<^verbatim>\<open>orderMap.get(a.id) ?? Infinity\<close>\<close>

definition orderOf :: "(string \<rightharpoonup> nat) \<Rightarrow> ContentItem \<Rightarrow> jsnum" where
  "orderOf orderMap a =
     (case orderMap (itemId a) of Some index \<Rightarrow> Fin (int index) | None \<Rightarrow> PosInf)"

text \<open>\<^verbatim>\<open>(a, b) => orderA - orderB\<close>\<close>

definition compareByOrder :: "(string \<rightharpoonup> nat) \<Rightarrow> ContentItem \<Rightarrow> ContentItem \<Rightarrow> jsnum" where
  "compareByOrder orderMap a b = jsMinus (orderOf orderMap a) (orderOf orderMap b)"

text \<open>
  \<^verbatim>\<open>Array.prototype.sort(comparefn)\<close>. ECMAScript (2019 and later) specifies a stable
  sort, and reads the comparator's value \<open>v\<close> as: \<open>v\<close> is \<^verbatim>\<open>NaN\<close> counts as \<open>+0\<close>;
  \<open>v > 0\<close> puts the second argument first; otherwise the two keep their order.
  The model is the stable insertion sort with that reading of the comparator.
\<close>

fun comesAfter :: "jsnum \<Rightarrow> bool" where
  "comesAfter (Fin v) = (0 < v)"
| "comesAfter PosInf = True"
| "comesAfter NegInf = False"
| "comesAfter NaN = False"

fun sortInsert :: "('a \<Rightarrow> 'a \<Rightarrow> jsnum) \<Rightarrow> 'a \<Rightarrow> 'a list \<Rightarrow> 'a list" where
  "sortInsert comparefn x [] = [x]"
| "sortInsert comparefn x (y # ys) =
     (if comesAfter (comparefn x y) then y # sortInsert comparefn x ys else x # y # ys)"

definition arraySort :: "('a \<Rightarrow> 'a \<Rightarrow> jsnum) \<Rightarrow> 'a list \<Rightarrow> 'a list" where
  "arraySort comparefn xs = foldr (sortInsert comparefn) xs []"

text \<open>
  The sorting step of fetchContent: the list is sorted only when the ledger is not empty.
\<close>

definition sortByContentOrder :: "string list \<Rightarrow> ContentItem list \<Rightarrow> ContentItem list" where
  "sortByContentOrder order loadedContent =
     (if length order > 0
      then arraySort (compareByOrder (orderMapOf order)) loadedContent
      else loadedContent)"

text \<open>
  The order the specification describes, written without any sorting: for each id of
  the ledger in turn (an id that occurs several times counts at its last place) the
  items that carry this id, in arrival order; then the items whose id the ledger does
  not hold, in arrival order.
\<close>

definition ledgerOrder :: "string list \<Rightarrow> ContentItem list \<Rightarrow> ContentItem list" where
  "ledgerOrder order loaded =
     concat (map (\<lambda>k. filter (\<lambda>a. itemId a = k) loaded) (remdups order))
     @ filter (\<lambda>a. itemId a \<notin> set order) loaded"

section \<open>The in-memory item list (saveItem, deleteItem)\<close>

text \<open>
  The updater passed to \<^verbatim>\<open>setItems\<close> by saveItem:
  \<^verbatim>\<open>const exists = prev.find(i => i.id === item.id);
  if (exists) return prev.map(i => i.id === item.id ? item : i);
  return [item, ...prev];\<close>
\<close>

definition saveItemUpdater :: "ContentItem \<Rightarrow> ContentItem list \<Rightarrow> ContentItem list" where
  "saveItemUpdater item prev =
     (case find (\<lambda>i. itemId i = itemId item) prev of
        Some exists \<Rightarrow> map (\<lambda>i. if itemId i = itemId item then item else i) prev
      | None \<Rightarrow> item # prev)"

text \<open>The updater of deleteItem: \<^verbatim>\<open>prev.filter(i => i.id !== id)\<close>\<close>

definition deleteItemUpdater :: "string \<Rightarrow> ContentItem list \<Rightarrow> ContentItem list" where
  "deleteItemUpdater k prev = filter (\<lambda>i. itemId i \<noteq> k) prev"

text \<open>
  Two functions used in the proofs about the ordering: the index that \<open>orderMapOf\<close> holds
  for an id, computed by recursion over the ledger (the last place of the id, counted
  from \<open>n\<close>), and the sort key of an item (that index, or the length of the ledger for an
  id the ledger does not hold, which is larger than every index as \<^verbatim>\<open>Infinity\<close> is).
\<close>

fun lastPos :: "nat \<Rightarrow> string list \<Rightarrow> string \<Rightarrow> nat option" where
  "lastPos n [] k = None"
| "lastPos n (x # xs) k =
     (case lastPos (Suc n) xs k of Some i \<Rightarrow> Some i | None \<Rightarrow> if x = k then Some n else None)"

definition ordKey :: "string list \<Rightarrow> ContentItem \<Rightarrow> nat" where
  "ordKey order a = (case lastPos 0 order (itemId a) of Some i \<Rightarrow> i | None \<Rightarrow> length order)"

section \<open>The access gate (hooks/useAuth.ts)\<close>

text \<open>
  \<^verbatim>\<open>const ADMIN_PASSWORD = import.meta.env.VITE_ADMIN_PASSWORD || 'jacopo'\<close>: the
  configured variable, when it is set and not the empty string, else the built-in value.
\<close>

definition ADMIN_PASSWORD :: "string option \<Rightarrow> string" where
  "ADMIN_PASSWORD env =
     (case env of None \<Rightarrow> ''jacopo'' | Some v \<Rightarrow> if v = [] then ''jacopo'' else v)"

text \<open>
  The state of the hook, with the entry \<^verbatim>\<open>cms_authenticated\<close> of the session storage
  beside it.
\<close>

record auth_state =
  isAuthenticated :: bool
  authIsLoading :: bool
  cms_authenticated :: "string option"

definition initialAuth :: "string option \<Rightarrow> auth_state" where
  "initialAuth session =
     \<lparr>isAuthenticated = False, authIsLoading = True, cms_authenticated = session\<rparr>"

definition checkAuth :: "auth_state \<Rightarrow> auth_state" where
  "checkAuth a =
     (let a1 = (if cms_authenticated a = Some ''true'' then a\<lparr>isAuthenticated := True\<rparr> else a)
      in a1\<lparr>authIsLoading := False\<rparr>)"

definition login :: "string option \<Rightarrow> string \<Rightarrow> auth_state \<Rightarrow> bool \<times> auth_state" where
  "login env pw a =
     (if pw = ADMIN_PASSWORD env
      then (True, a\<lparr>isAuthenticated := True, cms_authenticated := Some ''true''\<rparr>)
      else (False, a))"

definition logout :: "auth_state \<Rightarrow> auth_state" where
  "logout a = a\<lparr>isAuthenticated := False, cms_authenticated := None\<rparr>"

section \<open>The login form (components/Login.tsx)\<close>

text \<open>
  The five state variables of the component; \<open>loginError\<close> is the variable
  \<^verbatim>\<open>error\<close>. \<^verbatim>\<open>attempts\<close> and \<^verbatim>\<open>lockoutTimer\<close> are JavaScript numbers that
  only ever hold small integers.
\<close>

record login_state =
  password :: string
  loginError :: bool
  attempts :: int
  isLocked :: bool
  lockoutTimer :: int

definition MAX_ATTEMPTS :: int where
  "MAX_ATTEMPTS = 3"

definition LOCKOUT_DURATION :: int where
  "LOCKOUT_DURATION = 30"

definition initialLogin :: login_state where
  "initialLogin =
     \<lparr>password = [], loginError = False, attempts = 0, isLocked = False, lockoutTimer = 0\<rparr>"

text \<open>
  What a call of \<^verbatim>\<open>onLogin\<close> hands back to handleSubmit: a boolean, as
  \<^verbatim>\<open>LoginProps\<close> declares, or a promise (here with the boolean it settles to), which
  is what an \<^verbatim>\<open>async\<close> function returns. \<open>ToBoolean\<close> is the test of
  \<^verbatim>\<open>if (success)\<close>: a promise is an object, and every object counts as true.
\<close>

datatype returned = Boolean bool | Promise bool

fun ToBoolean :: "returned \<Rightarrow> bool" where
  "ToBoolean (Boolean b) = b"
| "ToBoolean (Promise b) = True"

text \<open>
  handleSubmit. The property \<^verbatim>\<open>onLogin\<close> is a parameter; it may have an effect of its
  own (the hook's \<open>login\<close> sets the session), so it takes and returns a state \<open>'e\<close> of
  the surroundings. A locked form returns before \<^verbatim>\<open>onLogin\<close> is called.
\<close>

definition handleSubmit ::
  "(string \<Rightarrow> 'e \<Rightarrow> returned \<times> 'e) \<Rightarrow> login_state \<times> 'e \<Rightarrow> login_state \<times> 'e" where
  "handleSubmit onLogin se =
     (case se of (s, e) \<Rightarrow>
        if isLocked s then (s, e)
        else (case onLogin (password s) e of (success, e') \<Rightarrow>
          if ToBoolean success then (s\<lparr>loginError := False\<rparr>, e')
          else
            (let nextAttempts = attempts s + 1;
                 s1 = s\<lparr>attempts := nextAttempts, loginError := True\<rparr>
             in if nextAttempts \<ge> MAX_ATTEMPTS
                then (s1\<lparr>isLocked := True, lockoutTimer := LOCKOUT_DURATION\<rparr>, e')
                else (s1, e'))))"

text \<open>
  The effect on \<^verbatim>\<open>[isLocked, lockoutTimer]\<close>. Its first branch arms the interval and
  changes no state; its second branch releases the lock. The callback of the interval
  is \<open>intervalTick\<close>; an interval exists only while the first branch holds.
\<close>

definition lockoutEffect :: "login_state \<Rightarrow> login_state" where
  "lockoutEffect s =
     (if isLocked s \<and> lockoutTimer s > 0 then s
      else if lockoutTimer s = 0 \<and> isLocked s then s\<lparr>isLocked := False, attempts := 0\<rparr>
      else s)"

definition intervalTick :: "login_state \<Rightarrow> login_state" where
  "intervalTick s =
     (if isLocked s \<and> lockoutTimer s > 0 then s\<lparr>lockoutTimer := lockoutTimer s - 1\<rparr> else s)"

text \<open>
  What can happen to the mounted form: the input changes, the form is submitted, the
  interval fires, the timeout that clears the error mark fires. After each of them the
  component renders again and the effect runs.
\<close>

datatype login_event = Change string | Submit | Tick | ErrorTimeout

fun loginStep ::
  "(string \<Rightarrow> 'e \<Rightarrow> returned \<times> 'e) \<Rightarrow> login_event \<Rightarrow> login_state \<times> 'e \<Rightarrow> login_state \<times> 'e" where
  "loginStep onLogin (Change v) (s, e) = (lockoutEffect (s\<lparr>password := v\<rparr>), e)"
| "loginStep onLogin Submit (s, e) =
     (case handleSubmit onLogin (s, e) of (s', e') \<Rightarrow> (lockoutEffect s', e'))"
| "loginStep onLogin Tick (s, e) = (lockoutEffect (intervalTick s), e)"
| "loginStep onLogin ErrorTimeout (s, e) = (lockoutEffect (s\<lparr>loginError := False\<rparr>), e)"

definition loginRun ::
  "(string \<Rightarrow> 'e \<Rightarrow> returned \<times> 'e) \<Rightarrow> login_event list \<Rightarrow> login_state \<times> 'e \<Rightarrow> login_state \<times> 'e" where
  "loginRun onLogin evs se = fold (loginStep onLogin) evs se"

section \<open>The application around the login form (App.tsx)\<close>

text \<open>
  \<^verbatim>\<open>type ViewType = "HOME" | ContentType | "CMS" | "LOGIN"\<close>, and the part of the
  state of \<^verbatim>\<open>App\<close> that decides whether the login form is on the page: the view and the
  state of the hook useAuth. (\<^verbatim>\<open>menuOpen\<close> and \<^verbatim>\<open>selectedItem\<close> are left out: an
  item is selected from the list views only, so none is selected while the view is
  \<^verbatim>\<open>"LOGIN"\<close>.) When \<^verbatim>\<open>App\<close> is mounted the effect of useAuth has read the session.
\<close>

datatype ViewType = HOME | CONTENT ContentTypeValue | CMS | LOGIN

record app_state =
  currentView :: ViewType
  useAuth :: auth_state

definition initialApp :: "string option \<Rightarrow> app_state" where
  "initialApp session = \<lparr>currentView = HOME, useAuth = checkAuth (initialAuth session)\<rparr>"

text \<open>handleNav, with its timeout of 400 ms elapsed, and handleLogout.\<close>

definition handleNav :: "ViewType \<Rightarrow> app_state \<Rightarrow> app_state" where
  "handleNav view app =
     (if view = CMS \<and> \<not> isAuthenticated (useAuth app)
      then app\<lparr>currentView := LOGIN\<rparr>
      else app\<lparr>currentView := view\<rparr>)"

definition handleLogout :: "app_state \<Rightarrow> app_state" where
  "handleLogout app = app\<lparr>useAuth := logout (useAuth app), currentView := HOME\<rparr>"

text \<open>
  handleLoginSubmit is declared \<^verbatim>\<open>async\<close>. Its call runs \<open>login\<close> at once; the part
  after \<^verbatim>\<open>await\<close>, which shows the CMS when the check passed, runs before the next
  event; and what the caller holds is the promise, not the boolean.
\<close>

definition handleLoginSubmit :: "string option \<Rightarrow> string \<Rightarrow> app_state \<Rightarrow> returned \<times> app_state" where
  "handleLoginSubmit env pw app =
     (case login env pw (useAuth app) of
        (success, a) \<Rightarrow>
          (Promise success,
           if success then app\<lparr>useAuth := a, currentView := CMS\<rparr> else app\<lparr>useAuth := a\<rparr>))"

text \<open>
  \<^verbatim>\<open>{currentView === "LOGIN" && <Login onLogin={handleLoginSubmit} />}\<close>: the form is
  mounted, in its initial state, when the view becomes \<^verbatim>\<open>"LOGIN"\<close>, keeps its state
  while the view stays, and is unmounted, its state lost, when the view changes. The
  events of the application are a choice in the menu, the logout button of the CMS (there
  only while the CMS is shown), and the events of the form while it is mounted.
\<close>

definition mountLogin :: "login_state option \<Rightarrow> app_state \<Rightarrow> login_state option" where
  "mountLogin form app =
     (if currentView app = LOGIN
      then (case form of None \<Rightarrow> Some initialLogin | Some s \<Rightarrow> Some s)
      else None)"

datatype app_event = Nav ViewType | Logout | Form login_event

fun appStep ::
  "string option \<Rightarrow> app_event \<Rightarrow> login_state option \<times> app_state \<Rightarrow> login_state option \<times> app_state" where
  "appStep env (Nav view) (form, app) = (mountLogin form (handleNav view app), handleNav view app)"
| "appStep env Logout (form, app) =
     (if currentView app = CMS \<and> isAuthenticated (useAuth app)
      then (mountLogin form (handleLogout app), handleLogout app)
      else (form, app))"
| "appStep env (Form ev) (form, app) =
     (case form of
        None \<Rightarrow> (None, app)
      | Some s \<Rightarrow>
          (case loginStep (handleLoginSubmit env) ev (s, app) of
             (s', app') \<Rightarrow> (mountLogin (Some s') app', app')))"

definition appRun ::
  "string option \<Rightarrow> app_event list \<Rightarrow> login_state option \<times> app_state \<Rightarrow> login_state option \<times> app_state" where
  "appRun env evs st = fold (appStep env) evs st"

text \<open>
  What holds of the form in every state it can reach: a locked form has three failed
  checks on its count and a timer between 1 and 30; an unlocked form has fewer than three
  and a timer at 0. And the events of typing and submitting each of a list of strings.
\<close>

definition loginInv :: "login_state \<Rightarrow> bool" where
  "loginInv s =
     (if isLocked s then attempts s = MAX_ATTEMPTS \<and> 0 < lockoutTimer s \<and> lockoutTimer s \<le> LOCKOUT_DURATION
      else 0 \<le> attempts s \<and> attempts s < MAX_ATTEMPTS \<and> lockoutTimer s = 0)"

definition submissions :: "string list \<Rightarrow> login_event list" where
  "submissions pws = concat (map (\<lambda>pw. [Change pw, Submit]) pws)"

section \<open>The content repository (hooks/useFirebaseDB.ts)\<close>

definition DEFAULT_CONTENT :: "ContentItem list" where
  "DEFAULT_CONTENT =
     [\<lparr>itemId = ''1'', itemType = QUOTE, title = None,
       body = ''If you look at what you have in life, you'll always have more. If you look at what you don't have in life, you'll never have enough.'',
       excerpt = None, date = None\<rparr>,
      \<lparr>itemId = ''2'', itemType = STORY,
       title = Some ''This Beginning May Have Always Meant This End'',
       body = ''Coming from a place where we meandered mornings and met quail, scrub jay, mockingbird, i knew coyote, like everyone else...'',
       excerpt = Some ''Coming from a place where we meandered mornings and met quail, scrub jay, mockingbird...'',
       date = Some ''Oct 24, 2023''\<rparr>]"

definition DEFAULT_SETTINGS :: SiteSettings where
  "DEFAULT_SETTINGS =
     \<lparr>siteTitle = ''Digital Silence'',
      siteDescription = ''A collection of stories, poetry, and moments crafted in the void.'',
      authorName = ''Jacopo'',
      authorBio = ''Obsessed with the silence between words and the shadows cast by the noon sun.'',
      authorRoles = [''Author'', ''Curator'', ''Dreamer'']\<rparr>"

text \<open>The four state variables of the hook; \<open>loadError\<close> is the variable \<^verbatim>\<open>error\<close>.\<close>

record hook_state =
  items :: "ContentItem list"
  settings :: SiteSettings
  isLoading :: bool
  loadError :: "string option"

definition initialHook :: hook_state where
  "initialHook = \<lparr>items = [], settings = DEFAULT_SETTINGS, isLoading = True, loadError = None\<rparr>"

text \<open>
  What the hook works on besides its own state. The Firestore database holds the
  collection \<^verbatim>\<open>content\<close> (document id and data), and the documents
  \<^verbatim>\<open>config/settings\<close> and \<^verbatim>\<open>config/meta\<close>, each there or not.
\<close>

record firestore =
  contentDocs :: "(string \<times> ContentItem) list"
  configSettings :: "SiteSettings option"
  configMeta :: "ContentMeta option"

text \<open>
  An entry of the local storage is absent, or it holds the empty string (which
  \<^verbatim>\<open>if (savedContent)\<close> takes for absent), a text that \<^verbatim>\<open>JSON.parse\<close> rejects, or
  the JSON text of a value.
\<close>

datatype 'a stored = Blank | Malformed | Json 'a

record local_storage =
  cms_content :: "ContentItem list stored option"
  cms_settings :: "SiteSettings stored option"

text \<open>
  A bundled static file, as \<^verbatim>\<open>fetch\<close> and \<^verbatim>\<open>res.json()\<close> give it: the request
  fails, the answer is not \<^verbatim>\<open>ok\<close>, the body is not JSON, or the value.
\<close>

datatype 'a fetched = FetchFailed | NotOk | BadJson | Fetched 'a

record static_site =
  settingsFile :: "SiteSettings fetched"
  contentFile :: "string \<Rightarrow> ContentItem fetched"

text \<open>
  The requests to the backend, and the effects of a call in program order: the state
  setters \<^verbatim>\<open>setItems\<close> and \<^verbatim>\<open>setSettings\<close>, a request to the backend, a read of
  the local storage, a fetch of a static file. (\<^verbatim>\<open>setIsLoading\<close> and \<^verbatim>\<open>setError\<close>
  are not recorded.)
\<close>

datatype request =
  GetDoc string string | GetDocs string | SetDoc string string | DeleteDoc string string

datatype 'r effect = SetItems | SetSettings | Remote 'r | GetItem string | Fetch string


record ('d, 'r) world =
  hook :: hook_state
  db :: 'd
  cache :: local_storage
  trace :: "'r effect list"

datatype exn = FirebaseError | SyntaxError | TypeError

type_synonym fb_world = "(firestore, request) world"

definition setItems :: "(ContentItem list \<Rightarrow> ContentItem list) \<Rightarrow> ('d, 'r) world \<Rightarrow> ('d, 'r) world" where
  "setItems updater w =
     w\<lparr>hook := (hook w)\<lparr>items := updater (items (hook w))\<rparr>, trace := trace w @ [SetItems]\<rparr>"

definition setSettings :: "SiteSettings \<Rightarrow> ('d, 'r) world \<Rightarrow> ('d, 'r) world" where
  "setSettings newSettings w =
     w\<lparr>hook := (hook w)\<lparr>settings := newSettings\<rparr>, trace := trace w @ [SetSettings]\<rparr>"

definition setIsLoading :: "bool \<Rightarrow> ('d, 'r) world \<Rightarrow> ('d, 'r) world" where
  "setIsLoading b w = w\<lparr>hook := (hook w)\<lparr>isLoading := b\<rparr>\<rparr>"

definition setError :: "string option \<Rightarrow> ('d, 'r) world \<Rightarrow> ('d, 'r) world" where
  "setError e w = w\<lparr>hook := (hook w)\<lparr>loadError := e\<rparr>\<rparr>"

text \<open>
  The calls of the Firestore SDK. Whether the backend carries a request out is not the
  hook's to decide: \<open>ok r\<close> says that request \<open>r\<close>, sent during this call of the hook, is
  carried out; otherwise the SDK call throws and the database is as before. Every call is
  recorded in the trace.
\<close>

definition sent :: "'r \<Rightarrow> ('d, 'r) world \<Rightarrow> ('d, 'r) world" where
  "sent r w = w\<lparr>trace := trace w @ [Remote r]\<rparr>"

definition getDocSettings :: "(request \<Rightarrow> bool) \<Rightarrow> fb_world \<Rightarrow> (exn + SiteSettings option) \<times> fb_world" where
  "getDocSettings ok w =
     (if ok (GetDoc ''config'' ''settings'')
      then (Inr (configSettings (db w)), sent (GetDoc ''config'' ''settings'') w)
      else (Inl FirebaseError, sent (GetDoc ''config'' ''settings'') w))"

definition getDocMeta :: "(request \<Rightarrow> bool) \<Rightarrow> fb_world \<Rightarrow> (exn + ContentMeta option) \<times> fb_world" where
  "getDocMeta ok w =
     (if ok (GetDoc ''config'' ''meta'')
      then (Inr (configMeta (db w)), sent (GetDoc ''config'' ''meta'') w)
      else (Inl FirebaseError, sent (GetDoc ''config'' ''meta'') w))"

text \<open>
  \<^verbatim>\<open>getDocs(collection(db, 'content'))\<close> with the loop that follows it:
  \<^verbatim>\<open>loadedContent.push({ ...doc.data(), id: doc.id })\<close>.
\<close>

definition getDocsContent :: "(request \<Rightarrow> bool) \<Rightarrow> fb_world \<Rightarrow> (exn + ContentItem list) \<times> fb_world" where
  "getDocsContent ok w =
     (if ok (GetDocs ''content'')
      then (Inr (map (\<lambda>(docId, data). data\<lparr>itemId := docId\<rparr>) (contentDocs (db w))),
            sent (GetDocs ''content'') w)
      else (Inl FirebaseError, sent (GetDocs ''content'') w))"

definition setDocContent :: "(request \<Rightarrow> bool) \<Rightarrow> string \<Rightarrow> ContentItem \<Rightarrow> fb_world \<Rightarrow> (exn + unit) \<times> fb_world" where
  "setDocContent ok docId data w =
     (if ok (SetDoc ''content'' docId)
      then (Inr (), sent (SetDoc ''content'' docId)
                      (w\<lparr>db := (db w)\<lparr>contentDocs := AList.update docId data (contentDocs (db w))\<rparr>\<rparr>))
      else (Inl FirebaseError, sent (SetDoc ''content'' docId) w))"

definition deleteDocContent :: "(request \<Rightarrow> bool) \<Rightarrow> string \<Rightarrow> fb_world \<Rightarrow> (exn + unit) \<times> fb_world" where
  "deleteDocContent ok docId w =
     (if ok (DeleteDoc ''content'' docId)
      then (Inr (), sent (DeleteDoc ''content'' docId)
                      (w\<lparr>db := (db w)\<lparr>contentDocs := AList.delete docId (contentDocs (db w))\<rparr>\<rparr>))
      else (Inl FirebaseError, sent (DeleteDoc ''content'' docId) w))"

definition setDocMeta :: "(request \<Rightarrow> bool) \<Rightarrow> ContentMeta \<Rightarrow> fb_world \<Rightarrow> (exn + unit) \<times> fb_world" where
  "setDocMeta ok data w =
     (if ok (SetDoc ''config'' ''meta'')
      then (Inr (), sent (SetDoc ''config'' ''meta'') (w\<lparr>db := (db w)\<lparr>configMeta := Some data\<rparr>\<rparr>))
      else (Inl FirebaseError, sent (SetDoc ''config'' ''meta'') w))"

definition setDocSettings :: "(request \<Rightarrow> bool) \<Rightarrow> SiteSettings \<Rightarrow> fb_world \<Rightarrow> (exn + unit) \<times> fb_world" where
  "setDocSettings ok data w =
     (if ok (SetDoc ''config'' ''settings'')
      then (Inr (), sent (SetDoc ''config'' ''settings'') (w\<lparr>db := (db w)\<lparr>configSettings := Some data\<rparr>\<rparr>))
      else (Inl FirebaseError, sent (SetDoc ''config'' ''settings'') w))"

subsection \<open>saveItem, deleteItem, saveSettings, saveMeta\<close>

text \<open>
  The inner \<^verbatim>\<open>try\<close> of saveItem ("Update meta order if new"). Its \<^verbatim>\<open>catch\<close> only
  warns, so saveItem goes on with the world this block leaves, whatever it returns.
\<close>

definition saveItemMetaOrder :: "(request \<Rightarrow> bool) \<Rightarrow> ContentItem \<Rightarrow> fb_world \<Rightarrow> (exn + unit) \<times> fb_world" where
  "saveItemMetaOrder ok item w =
     (case getDocMeta ok w of
        (Inl e, w1) \<Rightarrow> (Inl e, w1)
      | (Inr metaDoc, w1) \<Rightarrow>
          (let currentOrder = (case metaDoc of Some m \<Rightarrow> contentOrder m | None \<Rightarrow> [])
           in if itemId item \<notin> set currentOrder
              then setDocMeta ok \<lparr>contentOrder = itemId item # currentOrder\<rparr> w1
              else (Inr (), w1)))"

definition saveItem :: "bool \<Rightarrow> (request \<Rightarrow> bool) \<Rightarrow> ContentItem \<Rightarrow> fb_world \<Rightarrow> bool \<times> fb_world" where
  "saveItem isFirebaseConfigured ok item w =
     (let w1 = setItems (saveItemUpdater item) w
      in if isFirebaseConfigured
         then (case setDocContent ok (itemId item) item w1 of
                 (Inl e, w2) \<Rightarrow> (False, w2)
               | (Inr u, w2) \<Rightarrow> (True, snd (saveItemMetaOrder ok item w2)))
         else (True, w1))"

text \<open>The \<^verbatim>\<open>try\<close> block of deleteItem.\<close>

definition deleteItemRemote :: "(request \<Rightarrow> bool) \<Rightarrow> string \<Rightarrow> fb_world \<Rightarrow> (exn + unit) \<times> fb_world" where
  "deleteItemRemote ok k w =
     (case deleteDocContent ok k w of
        (Inl e, w1) \<Rightarrow> (Inl e, w1)
      | (Inr u, w1) \<Rightarrow>
          (case getDocMeta ok w1 of
             (Inl e, w2) \<Rightarrow> (Inl e, w2)
           | (Inr metaDoc, w2) \<Rightarrow>
               (case metaDoc of
                  Some m \<Rightarrow>
                    setDocMeta ok \<lparr>contentOrder = filter (\<lambda>itemId'. itemId' \<noteq> k) (contentOrder m)\<rparr> w2
                | None \<Rightarrow> (Inr (), w2))))"

definition deleteItem :: "bool \<Rightarrow> (request \<Rightarrow> bool) \<Rightarrow> string \<Rightarrow> fb_world \<Rightarrow> bool \<times> fb_world" where
  "deleteItem isFirebaseConfigured ok k w =
     (let w1 = setItems (deleteItemUpdater k) w
      in if isFirebaseConfigured
         then (case deleteItemRemote ok k w1 of
                 (Inl e, w2) \<Rightarrow> (False, w2)
               | (Inr u, w2) \<Rightarrow> (True, w2))
         else (True, w1))"

definition saveSettings :: "bool \<Rightarrow> (request \<Rightarrow> bool) \<Rightarrow> SiteSettings \<Rightarrow> fb_world \<Rightarrow> bool \<times> fb_world" where
  "saveSettings isFirebaseConfigured ok newSettings w =
     (let w1 = setSettings newSettings w
      in if isFirebaseConfigured
         then (case setDocSettings ok newSettings w1 of
                 (Inl e, w2) \<Rightarrow> (False, w2)
               | (Inr u, w2) \<Rightarrow> (True, w2))
         else (True, w1))"

definition saveMeta :: "bool \<Rightarrow> (request \<Rightarrow> bool) \<Rightarrow> ContentMeta \<Rightarrow> fb_world \<Rightarrow> bool \<times> fb_world" where
  "saveMeta isFirebaseConfigured ok meta w =
     (if isFirebaseConfigured
      then (case setDocMeta ok meta w of
              (Inl e, w1) \<Rightarrow> (False, w1)
            | (Inr u, w1) \<Rightarrow> (True, w1))
      else (True, w))"

subsection \<open>fetchContent\<close>

definition contentFiles :: "string list" where
  "contentFiles =
     [''quote-1.json'', ''quote-2.json'', ''quote-3.json'', ''quote-4.json'',
      ''story-this-beginning.json'', ''story-fragments.json'', ''story-silent-architect.json'',
      ''story-train-nowhere.json'', ''story-old-clock.json'', ''story-last-bookstore.json'',
      ''poem-first-snow.json'', ''poem-jagged-winter.json'', ''poem-neon-rain.json'',
      ''poem-paper-planes.json'', ''poem-roots.json'']"

text \<open>
  The block under \<^verbatim>\<open>if (isFirebaseConfigured)\<close> up to the sorting; it gives
  \<^verbatim>\<open>loadedContent\<close>. (The settings are typed, so
  \<^verbatim>\<open>Array.isArray(data.authorRoles) ? data.authorRoles : []\<close> is \<open>authorRoles data\<close>.)
\<close>

definition fetchFromFirebase :: "(request \<Rightarrow> bool) \<Rightarrow> fb_world \<Rightarrow> (exn + ContentItem list) \<times> fb_world" where
  "fetchFromFirebase ok w =
     (case getDocSettings ok w of
        (Inl e, w1) \<Rightarrow> (Inl e, w1)
      | (Inr settingsDoc, w1) \<Rightarrow>
          (let w2 = (case settingsDoc of Some data \<Rightarrow> setSettings data w1 | None \<Rightarrow> w1)
           in case getDocsContent ok w2 of
                (Inl e, w3) \<Rightarrow> (Inl e, w3)
              | (Inr loadedContent, w3) \<Rightarrow>
                  (case getDocMeta ok w3 of
                     (Inl e, w4) \<Rightarrow> (Inl e, w4)
                   | (Inr metaDoc, w4) \<Rightarrow>
                       (let order = (case metaDoc of Some m \<Rightarrow> contentOrder m | None \<Rightarrow> [])
                        in (Inr (sortByContentOrder order loadedContent), w4)))))"

text \<open>
  \<^verbatim>\<open>if (savedContent)\<close> and \<^verbatim>\<open>JSON.parse(savedContent)\<close>. The parse is only called
  on an entry that is there and not the empty string.
\<close>

fun truthy :: "'a stored option \<Rightarrow> bool" where
  "truthy None = False"
| "truthy (Some Blank) = False"
| "truthy (Some Malformed) = True"
| "truthy (Some (Json v)) = True"

fun JSON_parse :: "'a stored option \<Rightarrow> exn + 'a" where
  "JSON_parse (Some (Json v)) = Inr v"
| "JSON_parse other = Inl SyntaxError"

definition getItem :: "string \<Rightarrow> ('d, 'r) world \<Rightarrow> ('d, 'r) world" where
  "getItem key w = w\<lparr>trace := trace w @ [GetItem key]\<rparr>"

definition fetched :: "string \<Rightarrow> ('d, 'r) world \<Rightarrow> ('d, 'r) world" where
  "fetched url w = w\<lparr>trace := trace w @ [Fetch url]\<rparr>"

text \<open>
  "Load from static files": the loop over \<open>contentFiles\<close>, whose own \<^verbatim>\<open>try\<close> skips a
  file that cannot be fetched or read, and the choice of \<^verbatim>\<open>finalContent\<close>.
\<close>

definition loadStaticFile ::
  "static_site \<Rightarrow> string \<Rightarrow> ContentItem list \<times> ('d, 'r) world \<Rightarrow> ContentItem list \<times> ('d, 'r) world" where
  "loadStaticFile site file lw =
     (case lw of (loadedContent, w) \<Rightarrow>
        (case contentFile site file of
           Fetched item \<Rightarrow> (loadedContent @ [item], fetched (''/content/'' @ file) w)
         | other \<Rightarrow> (loadedContent, fetched (''/content/'' @ file) w)))"

definition loadStaticContent :: "static_site \<Rightarrow> ('d, 'r) world \<Rightarrow> (exn + unit) \<times> ('d, 'r) world" where
  "loadStaticContent site w =
     (case fold (loadStaticFile site) contentFiles ([], w) of
        (loadedContent, w1) \<Rightarrow>
          (let finalContent = (if length loadedContent > 0 then loadedContent else DEFAULT_CONTENT)
           in (Inr (), setIsLoading False (setItems (\<lambda>prev. finalContent) w1))))"

definition fetchStatic :: "static_site \<Rightarrow> ('d, 'r) world \<Rightarrow> (exn + unit) \<times> ('d, 'r) world" where
  "fetchStatic site w =
     (let w1 = fetched ''/content/settings.json'' w
      in case settingsFile site of
           FetchFailed \<Rightarrow> (Inl TypeError, w1)
         | BadJson \<Rightarrow> (Inl SyntaxError, w1)
         | NotOk \<Rightarrow> loadStaticContent site w1
         | Fetched staticSettings \<Rightarrow> loadStaticContent site (setSettings staticSettings w1))"

text \<open>"Fallback: Load from static files or localStorage".\<close>

definition fetchFallback :: "static_site \<Rightarrow> ('d, 'r) world \<Rightarrow> (exn + unit) \<times> ('d, 'r) world" where
  "fetchFallback site w =
     (let savedContent = cms_content (cache w);
          savedSettings = cms_settings (cache w);
          w1 = getItem ''cms_settings'' (getItem ''cms_content'' w)
      in if truthy savedContent
         then (case JSON_parse savedContent of
                 Inl e \<Rightarrow> (Inl e, w1)
               | Inr parsed \<Rightarrow>
                   (let w2 = setItems (\<lambda>prev. parsed) w1
                    in if truthy savedSettings
                       then (case JSON_parse savedSettings of
                               Inl e \<Rightarrow> (Inl e, w2)
                             | Inr s \<Rightarrow> (Inr (), setIsLoading False (setSettings s w2)))
                       else (Inr (), setIsLoading False w2)))
         else fetchStatic site w1)"

text \<open>The \<^verbatim>\<open>try\<close> block of fetchContent, and fetchContent with its \<^verbatim>\<open>catch\<close>.\<close>

definition fetchTry :: "bool \<Rightarrow> (request \<Rightarrow> bool) \<Rightarrow> static_site \<Rightarrow> fb_world \<Rightarrow> (exn + unit) \<times> fb_world" where
  "fetchTry isFirebaseConfigured ok site w =
     (if isFirebaseConfigured
      then (case fetchFromFirebase ok w of
              (Inl e, w1) \<Rightarrow> (Inl e, w1)
            | (Inr loadedContent, w1) \<Rightarrow>
                if length loadedContent > 0
                then (Inr (), setIsLoading False (setItems (\<lambda>prev. loadedContent) w1))
                else fetchFallback site w1)
      else fetchFallback site w)"

definition fetchContent :: "bool \<Rightarrow> (request \<Rightarrow> bool) \<Rightarrow> static_site \<Rightarrow> fb_world \<Rightarrow> fb_world" where
  "fetchContent isFirebaseConfigured ok site w =
     (case fetchTry isFirebaseConfigured ok site (setError None (setIsLoading True w)) of
        (Inl err, w1) \<Rightarrow>
          setIsLoading False
            (setItems (\<lambda>prev. DEFAULT_CONTENT) (setError (Some ''Failed to load content'') w1))
      | (Inr u, w1) \<Rightarrow> w1)"

text \<open>
  Names for what the statements about fetchContent speak of: the items the static files
  give, in the order of the file names; that all three reads of the backend are carried
  out; the items the backend gives, sorted; that fetchContent gets to its fallback part
  (no backend is configured, or the backend answers and holds no item); an effect that
  consults a fallback source (the local storage or a static file); a fetch of a static
  file.
\<close>

definition staticItems :: "static_site \<Rightarrow> string list \<Rightarrow> ContentItem list" where
  "staticItems site files =
     concat (map (\<lambda>file. case contentFile site file of Fetched item \<Rightarrow> [item] | other \<Rightarrow> []) files)"

definition backendAnswers :: "(request \<Rightarrow> bool) \<Rightarrow> bool" where
  "backendAnswers ok =
     (ok (GetDoc ''config'' ''settings'') \<and> ok (GetDocs ''content'') \<and> ok (GetDoc ''config'' ''meta''))"

definition backendContent :: "firestore \<Rightarrow> ContentItem list" where
  "backendContent d =
     sortByContentOrder (case configMeta d of Some m \<Rightarrow> contentOrder m | None \<Rightarrow> [])
       (map (\<lambda>(docId, data). data\<lparr>itemId := docId\<rparr>) (contentDocs d))"

definition reachesFallback :: "bool \<Rightarrow> (request \<Rightarrow> bool) \<Rightarrow> fb_world \<Rightarrow> bool" where
  "reachesFallback c ok w = (\<not> c \<or> (backendAnswers ok \<and> contentDocs (db w) = []))"

fun consultsFallback :: "'r effect \<Rightarrow> bool" where
  "consultsFallback (GetItem key) = True"
| "consultsFallback (Fetch url) = True"
| "consultsFallback e = False"

fun isFetch :: "'r effect \<Rightarrow> bool" where
  "isFetch (Fetch url) = True"
| "isFetch e = False"

section \<open>The GitHub variant of the repository (useGitHubDB)\<close>

text \<open>
  The files of the content folder of the GitHub repository. The content of a file is the
  JSON of an item, of the ledger (\<^verbatim>\<open>meta.json\<close>) or of the settings, JSON of another
  shape (with neither an \<^verbatim>\<open>id\<close> nor a \<^verbatim>\<open>contentOrder\<close>), or no JSON at all (empty,
  or a text that \<^verbatim>\<open>JSON.parse\<close> rejects).
\<close>

datatype gh_blob =
  ItemBlob ContentItem | MetaBlob ContentMeta | SettingsBlob SiteSettings | OtherJson | NoJson

record gh_file =
  ghName :: string
  ghPath :: string
  ghSha :: string
  ghBlob :: gh_blob

datatype gh_request =
  GET string | PUT string "string option" | DELETE string string | LIST string

text \<open>
  What the hook is configured with and what it cannot decide: the content path, the slug
  of a title (\<^verbatim>\<open>toLowerCase\<close>, the two \<^verbatim>\<open>replace\<close> and \<^verbatim>\<open>substring(0, 30)\<close>, left
  open here), whether GitHub carries out a request sent during this call (a write comes
  with the revision token the hook read before), and the revision token GitHub gives a
  file it has written.
\<close>

record gh_env =
  CONTENT_PATH :: string
  slugOf :: "string \<Rightarrow> string"
  accepts :: "gh_request \<Rightarrow> bool"
  revision :: "string \<Rightarrow> gh_blob \<Rightarrow> string"

type_synonym gh_world = "(gh_file list, gh_request) world"

definition generateFilename :: "(string \<Rightarrow> string) \<Rightarrow> ContentItem \<Rightarrow> string" where
  "generateFilename slugOfTitle item =
     (let suffix = (if itemType item = STORY then ''story''
                    else if itemType item = POEM then ''poem'' else ''quote'')
      in if itemType item = QUOTE then suffix @ ''-'' @ itemId item @ ''.json''
         else (let slug = (case title item of
                             Some t \<Rightarrow> if t \<noteq> [] then slugOfTitle t else itemId item
                           | None \<Rightarrow> itemId item)
               in suffix @ ''-'' @ slug @ ''.json''))"

text \<open>
  The four helpers. Each catches the error of a request that fails, and returns
  \<^verbatim>\<open>null\<close>, \<^verbatim>\<open>false\<close> or the empty list.
\<close>

definition getFileContent :: "gh_env \<Rightarrow> string \<Rightarrow> gh_world \<Rightarrow> (gh_blob \<times> string) option \<times> gh_world" where
  "getFileContent env path w =
     (let w1 = sent (GET path) w
      in if accepts env (GET path)
         then (case find (\<lambda>f. ghPath f = path) (db w) of
                 Some file \<Rightarrow>
                   (if ghBlob file = NoJson then None else Some (ghBlob file, ghSha file), w1)
               | None \<Rightarrow> (None, w1))
         else (None, w1))"

definition fileName :: "string \<Rightarrow> string" where
  "fileName path = rev (takeWhile (\<lambda>c. c \<noteq> CHR ''/'') (rev path))"

definition putFile :: "gh_file \<Rightarrow> gh_file list \<Rightarrow> gh_file list" where
  "putFile file files =
     (if \<exists>f\<in>set files. ghPath f = ghPath file
      then map (\<lambda>f. if ghPath f = ghPath file then file else f) files
      else files @ [file])"

definition saveFileToGitHub ::
  "gh_env \<Rightarrow> string \<Rightarrow> gh_blob \<Rightarrow> string option \<Rightarrow> gh_world \<Rightarrow> bool \<times> gh_world" where
  "saveFileToGitHub env path content sha w =
     (let w1 = sent (PUT path sha) w
      in if accepts env (PUT path sha)
         then (True, w1\<lparr>db := putFile \<lparr>ghName = fileName path, ghPath = path,
                                       ghSha = revision env path content, ghBlob = content\<rparr> (db w1)\<rparr>)
         else (False, w1))"

definition deleteFileFromGitHub :: "gh_env \<Rightarrow> string \<Rightarrow> string \<Rightarrow> gh_world \<Rightarrow> bool \<times> gh_world" where
  "deleteFileFromGitHub env path sha w =
     (let w1 = sent (DELETE path sha) w
      in if accepts env (DELETE path sha)
         then (True, w1\<lparr>db := filter (\<lambda>f. ghPath f \<noteq> path) (db w1)\<rparr>)
         else (False, w1))"

definition listFiles :: "gh_env \<Rightarrow> string \<Rightarrow> gh_world \<Rightarrow> gh_file list \<times> gh_world" where
  "listFiles env path w =
     (let w1 = sent (LIST path) w
      in if accepts env (LIST path) then (db w, w1) else ([], w1))"

text \<open>
  The updaters of this variant also write the new list to the local storage:
  \<^verbatim>\<open>localStorage.setItem('cms_content', JSON.stringify(newItems))\<close>.
\<close>

definition setItemsCached :: "(ContentItem list \<Rightarrow> ContentItem list) \<Rightarrow> ('d, 'r) world \<Rightarrow> ('d, 'r) world" where
  "setItemsCached updater w =
     (let newItems = updater (items (hook w))
      in (setItems (\<lambda>prev. newItems) w)\<lparr>cache := (cache w)\<lparr>cms_content := Some (Json newItems)\<rparr>\<rparr>)"

definition metaPath :: "gh_env \<Rightarrow> string" where
  "metaPath env = CONTENT_PATH env @ ''/meta.json''"

text \<open>\<^verbatim>\<open>metaData?.content?.contentOrder || []\<close>\<close>

fun orderOfMeta :: "(gh_blob \<times> string) option \<Rightarrow> string list" where
  "orderOfMeta (Some (MetaBlob m, sha)) = contentOrder m"
| "orderOfMeta other = []"

text \<open>
  The path saveItem writes to:
  \<^verbatim>\<open>const filename = generateFilename(item); const path = `${CONTENT_PATH}/${filename}`\<close>
\<close>

definition itemPath :: "gh_env \<Rightarrow> ContentItem \<Rightarrow> string" where
  "itemPath env item =
     (let filename = generateFilename (slugOf env) item in CONTENT_PATH env @ ''/'' @ filename)"

definition ghSaveItem :: "gh_env \<Rightarrow> bool \<Rightarrow> ContentItem \<Rightarrow> gh_world \<Rightarrow> bool \<times> gh_world" where
  "ghSaveItem env isGitHubConfigured item w =
     (let w1 = setItemsCached (saveItemUpdater item) w
      in if isGitHubConfigured
         then (let path = itemPath env item
               in case getFileContent env path w1 of (existing, w2) \<Rightarrow>
                  (case saveFileToGitHub env path (ItemBlob item) (map_option snd existing) w2 of
                     (success, w3) \<Rightarrow>
                       if success
                       then (case getFileContent env (metaPath env) w3 of (metaData, w4) \<Rightarrow>
                               (let currentOrder = orderOfMeta metaData
                                in if itemId item \<notin> set currentOrder
                                   then (let newOrder = itemId item # filter (\<lambda>k. k \<noteq> itemId item) currentOrder
                                         in (success, snd (saveFileToGitHub env (metaPath env)
                                                (MetaBlob \<lparr>contentOrder = newOrder\<rparr>)
                                                (map_option snd metaData) w4)))
                                   else (success, w4)))
                       else (success, w3)))
         else (True, w1))"

text \<open>
  deleteItem looks for the file that holds the id. The loop returns at the first such
  file; after it the function returns \<^verbatim>\<open>true\<close>.
\<close>

definition isContentFile :: "gh_file \<Rightarrow> bool" where
  "isContentFile f =
     (suffix ''.json'' (ghName f) \<and> ghName f \<noteq> ''settings.json'' \<and> ghName f \<noteq> ''meta.json'')"

text \<open>
  \<^verbatim>\<open>data?.content?.id === id\<close>: the revision token \<^verbatim>\<open>data.sha\<close> of a file that
  holds an item with the id, nothing for any other answer.
\<close>

fun shaIfHoldsId :: "(gh_blob \<times> string) option \<Rightarrow> string \<Rightarrow> string option" where
  "shaIfHoldsId (Some (ItemBlob i, sha)) k = (if itemId i = k then Some sha else None)"
| "shaIfHoldsId other k = None"

fun ghDeleteLoop :: "gh_env \<Rightarrow> string \<Rightarrow> gh_file list \<Rightarrow> gh_world \<Rightarrow> bool \<times> gh_world" where
  "ghDeleteLoop env k [] w = (True, w)"
| "ghDeleteLoop env k (file # rest) w =
     (case getFileContent env (ghPath file) w of (data, w1) \<Rightarrow>
        (case shaIfHoldsId data k of
           Some dataSha \<Rightarrow>
             (case deleteFileFromGitHub env (ghPath file) dataSha w1 of
                (success, w2) \<Rightarrow>
                  if success
                  then (case getFileContent env (metaPath env) w2 of (metaData, w3) \<Rightarrow>
                          (case metaData of
                             Some (MetaBlob m, sha) \<Rightarrow>
                               (success, snd (saveFileToGitHub env (metaPath env)
                                   (MetaBlob \<lparr>contentOrder = filter (\<lambda>itemId'. itemId' \<noteq> k) (contentOrder m)\<rparr>)
                                   (Some sha) w3))
                           | other \<Rightarrow> (success, w3)))
                  else (success, w2))
         | None \<Rightarrow> ghDeleteLoop env k rest w1))"

definition ghDeleteItem :: "gh_env \<Rightarrow> bool \<Rightarrow> string \<Rightarrow> gh_world \<Rightarrow> bool \<times> gh_world" where
  "ghDeleteItem env isGitHubConfigured k w =
     (let w1 = setItemsCached (deleteItemUpdater k) w
      in if isGitHubConfigured
         then (case listFiles env (CONTENT_PATH env) w1 of (files, w2) \<Rightarrow>
                 ghDeleteLoop env k (filter isContentFile files) w2)
         else (True, w1))"

text \<open>
  Names for two things the statements below speak of: the ledger the repository holds
  (the content of \<^verbatim>\<open>meta.json\<close>, when that file is there and holds a ledger), and a
  content folder as GitHub lists it (each file named by the last part of its path, no
  path twice).
\<close>

definition ghLedger :: "gh_env \<Rightarrow> gh_file list \<Rightarrow> string list option" where
  "ghLedger env files =
     (case find (\<lambda>f. ghPath f = metaPath env) files of
        Some f \<Rightarrow> (case ghBlob f of MetaBlob m \<Rightarrow> Some (contentOrder m) | other \<Rightarrow> None)
      | None \<Rightarrow> None)"

definition folder :: "gh_file list \<Rightarrow> bool" where
  "folder files =
     (distinct (map ghPath files) \<and> (\<forall>f\<in>set files. ghName f = fileName (ghPath f)))"

section \<open>Concrete inputs\<close>

text \<open>
  A backend that carries out every request and one that carries out none; a quote with
  the id "3"; a database that holds one document and the ledger ["1", "2"]; a world of the
  hook with the two default items in memory, that database and a local cache of the
  quote; a site without static files; a GitHub setting that accepts every request, with a
  folder that holds the quote and the ledger ["3", "1"]; a backend that carries out the
  write of the quote and nothing else, one that carries out the deletion of the document
  "1" and nothing else, and a GitHub that accepts the write of the file of the quote and
  nothing else.
\<close>

definition reachable :: "'r \<Rightarrow> bool" where
  "reachable r = True"

definition unreachable :: "'r \<Rightarrow> bool" where
  "unreachable r = False"

definition quote3 :: ContentItem where
  "quote3 = \<lparr>itemId = ''3'', itemType = QUOTE, title = None, body = ''q'', excerpt = None, date = None\<rparr>"

definition exampleDb :: firestore where
  "exampleDb =
     \<lparr>contentDocs = [(''1'', quote3)], configSettings = None,
      configMeta = Some \<lparr>contentOrder = [''1'', ''2'']\<rparr>\<rparr>"

definition exampleWorld :: fb_world where
  "exampleWorld =
     \<lparr>hook = \<lparr>items = DEFAULT_CONTENT, settings = DEFAULT_SETTINGS, isLoading = False, loadError = None\<rparr>,
      db = exampleDb,
      cache = \<lparr>cms_content = Some (Json [quote3]), cms_settings = None\<rparr>,
      trace = []\<rparr>"

definition noSite :: static_site where
  "noSite = \<lparr>settingsFile = NotOk, contentFile = (\<lambda>file. NotOk)\<rparr>"

definition exampleEnv :: gh_env where
  "exampleEnv =
     \<lparr>CONTENT_PATH = ''content'', slugOf = (\<lambda>t. t), accepts = reachable,
      revision = (\<lambda>path content. ''r'')\<rparr>"

definition exampleRepo :: gh_world where
  "exampleRepo =
     \<lparr>hook = \<lparr>items = [quote3], settings = DEFAULT_SETTINGS, isLoading = False, loadError = None\<rparr>,
      db = [\<lparr>ghName = ''quote-3.json'', ghPath = ''content/quote-3.json'', ghSha = ''a'',
             ghBlob = ItemBlob quote3\<rparr>,
            \<lparr>ghName = ''meta.json'', ghPath = ''content/meta.json'', ghSha = ''b'',
             ghBlob = MetaBlob \<lparr>contentOrder = [''3'', ''1'']\<rparr>\<rparr>],
      cache = \<lparr>cms_content = None, cms_settings = None\<rparr>,
      trace = []\<rparr>"

definition onlyContent :: "request \<Rightarrow> bool" where
  "onlyContent r = (r = SetDoc ''content'' ''3'')"


definition onlyItemFile :: "gh_request \<Rightarrow> bool" where
  "onlyItemFile r = (r = PUT ''content/quote-3.json'' None)"

section \<open>Lemmas on the ordering\<close>

lemma fold_enumerate_lastPos:
  "fold (\<lambda>(index, k) m. m(k \<mapsto> index)) (enumerate n xs) m0 k =
     (case lastPos n xs k of Some i \<Rightarrow> Some i | None \<Rightarrow> m0 k)"
  by (induction xs arbitrary: n m0) (auto split: option.splits)

lemma orderMapOf_lastPos: "orderMapOf order k = lastPos 0 order k"
  by (simp add: orderMapOf_def fold_enumerate_lastPos split: option.splits)

lemma lastPos_None: "lastPos n xs k = None \<longleftrightarrow> k \<notin> set xs"
proof (induction xs arbitrary: n)
  case Nil then show ?case by simp
next
  case (Cons x xs)
  from Cons.IH[of "Suc n"] show ?case by (cases "lastPos (Suc n) xs k") auto
qed

lemma lastPos_bounds: "lastPos n xs k = Some i \<Longrightarrow> n \<le> i \<and> i < n + length xs"
  by (induction xs arbitrary: n) (fastforce split: option.splits if_splits)+

lemma lastPos_nth: "lastPos n xs k = Some i \<Longrightarrow> xs ! (i - n) = k"
proof (induction xs arbitrary: n)
  case Nil then show ?case by simp
next
  case (Cons x xs)
  show ?case
  proof (cases "lastPos (Suc n) xs k")
    case None
    with Cons.prems show ?thesis by (auto split: if_splits)
  next
    case (Some j)
    with Cons.prems have "j = i" by simp
    with Some have s: "lastPos (Suc n) xs k = Some i" by simp
    from lastPos_bounds[OF s] obtain d where d: "i - n = Suc d" "i - Suc n = d"
      by (cases "i - n") auto
    from Cons.IH[OF s] d show ?thesis by simp
  qed
qed

lemma lastPos_last: "lastPos n xs k = Some i \<Longrightarrow> i - n < j \<Longrightarrow> j < length xs \<Longrightarrow> xs ! j \<noteq> k"
proof (induction xs arbitrary: n j)
  case Nil then show ?case by simp
next
  case (Cons x xs)
  show ?case
  proof (cases "lastPos (Suc n) xs k")
    case None
    then have "k \<notin> set xs" by (simp add: lastPos_None)
    with Cons.prems show ?thesis by (auto simp: nth_Cons split: nat.splits if_splits)
  next
    case (Some i')
    with Cons.prems have i': "i' = i" by simp
    from Some i' lastPos_bounds[of "Suc n" xs k i] have b: "Suc n \<le> i" by simp
    with Cons.prems obtain j' where j': "j = Suc j'" by (cases j) auto
    with Cons.prems b have "i - Suc n < j'" "j' < length xs" by auto
    with Cons.IH[of "Suc n" j'] Some i' have "xs ! j' \<noteq> k" by simp
    with j' show ?thesis by simp
  qed
qed

lemma lastPos_sorted:
  "sorted_wrt (<) (map (\<lambda>k. the (lastPos n xs k)) (remdups xs))"
proof (induction xs arbitrary: n)
  case Nil then show ?case by simp
next
  case (Cons x xs)
  have eq: "map (\<lambda>k. the (lastPos n (x # xs) k)) (remdups xs) =
            map (\<lambda>k. the (lastPos (Suc n) xs k)) (remdups xs)"
    by (rule map_cong) (auto simp: lastPos_None split: option.splits)
  show ?case
  proof (cases "x \<in> set xs")
    case True
    then have r: "remdups (x # xs) = remdups xs" by simp
    show ?thesis unfolding r eq by (rule Cons.IH)
  next
    case False
    then have r: "remdups (x # xs) = x # remdups xs" by simp
    from False have "lastPos (Suc n) xs x = None" by (simp add: lastPos_None)
    then have "lastPos n (x # xs) x = Some n" by simp
    then have hd: "the (lastPos n (x # xs) x) = n" by (simp del: lastPos.simps)
    have gt: "\<forall>k\<in>set (remdups xs). n < the (lastPos (Suc n) xs k)"
    proof
      fix k assume "k \<in> set (remdups xs)"
      then have "lastPos (Suc n) xs k \<noteq> None" by (simp add: lastPos_None)
      then obtain i where i: "lastPos (Suc n) xs k = Some i" by auto
      from lastPos_bounds[OF i] i show "n < the (lastPos (Suc n) xs k)" by simp
    qed
    show ?thesis unfolding r list.map sorted_wrt.simps eq hd
      using gt Cons.IH[of "Suc n"] by simp
  qed
qed


lemma comesAfter_compareByOrder:
  "comesAfter (compareByOrder (orderMapOf order) a b) \<longleftrightarrow> ordKey order b < ordKey order a"
proof -
  have b: "\<And>k i. lastPos 0 order k = Some i \<Longrightarrow> i < length order"
    using lastPos_bounds[of 0 order] by simp
  show ?thesis
    by (auto simp: compareByOrder_def orderOf_def orderMapOf_lastPos ordKey_def
             dest: b split: option.splits)
qed

lemma sortInsert_insort_key:
  "sortInsert (compareByOrder (orderMapOf order)) x ys = insort_key (ordKey order) x ys"
  by (induction ys) (simp_all add: comesAfter_compareByOrder not_less)

lemma arraySort_sort_key:
  "arraySort (compareByOrder (orderMapOf order)) xs = sort_key (ordKey order) xs"
  by (simp add: arraySort_def sort_key_def sortInsert_insort_key[abs_def])

lemma ordKey_known: "itemId a \<in> set order \<Longrightarrow> ordKey order a = the (lastPos 0 order (itemId a))"
  using lastPos_None[of 0 order "itemId a"] by (auto simp: ordKey_def split: option.splits)

lemma ordKey_known_less: "itemId a \<in> set order \<Longrightarrow> ordKey order a < length order"
  using lastPos_None[of 0 order "itemId a"] lastPos_bounds[of 0 order "itemId a"]
  by (auto simp: ordKey_def split: option.splits)

lemma ordKey_unknown: "itemId a \<notin> set order \<Longrightarrow> ordKey order a = length order"
  using lastPos_None[of 0 order "itemId a"] by (auto simp: ordKey_def split: option.splits)

lemma ordKey_eq_iff:
  "ordKey order a = ordKey order b \<longleftrightarrow>
     (if itemId a \<in> set order then itemId b = itemId a else itemId b \<notin> set order)"
proof (cases "itemId a \<in> set order")
  case True
  then obtain i where i: "lastPos 0 order (itemId a) = Some i"
    using lastPos_None[of 0 order "itemId a"] by auto
  show ?thesis
  proof (cases "itemId b \<in> set order")
    case False
    with True ordKey_known_less[OF True] ordKey_unknown[OF False] show ?thesis by auto
  next
    case bk: True
    then obtain j where j: "lastPos 0 order (itemId b) = Some j"
      using lastPos_None[of 0 order "itemId b"] by auto
    from lastPos_nth[OF i] lastPos_nth[OF j] i j True show ?thesis
      by (auto simp: ordKey_def)
  qed
next
  case False
  with ordKey_unknown[OF False] ordKey_known_less[of b order] ordKey_unknown[of b order]
  show ?thesis by (cases "itemId b \<in> set order") auto
qed

lemma mset_filter_split:
  "k \<notin> set ks \<Longrightarrow>
     mset (filter (\<lambda>a. f a = k) xs) + mset (filter (\<lambda>a. f a \<in> set ks) xs)
       = mset (filter (\<lambda>a. f a \<in> set (k # ks)) xs)"
  by (induction xs) auto

lemma mset_groups:
  "distinct ks \<Longrightarrow>
     mset (concat (map (\<lambda>k. filter (\<lambda>a. f a = k) xs) ks)) = mset (filter (\<lambda>a. f a \<in> set ks) xs)"
proof (induction ks)
  case Nil then show ?case by simp
next
  case (Cons k ks)
  then have ih: "mset (concat (map (\<lambda>k. filter (\<lambda>a. f a = k) xs) ks)) =
                 mset (filter (\<lambda>a. f a \<in> set ks) xs)" by simp
  from Cons.prems have nk: "k \<notin> set ks" by simp
  have "mset (concat (map (\<lambda>k. filter (\<lambda>a. f a = k) xs) (k # ks))) =
        mset (filter (\<lambda>a. f a = k) xs) + mset (concat (map (\<lambda>k. filter (\<lambda>a. f a = k) xs) ks))"
    by (simp del: mset_filter)
  also have "\<dots> = mset (filter (\<lambda>a. f a = k) xs) + mset (filter (\<lambda>a. f a \<in> set ks) xs)"
    by (simp only: ih)
  also have "\<dots> = mset (filter (\<lambda>a. f a \<in> set (k # ks)) xs)"
    by (rule mset_filter_split[OF nk])
  finally show ?case .
qed

lemma mset_partition_filter: "mset (filter P xs) + mset (filter (\<lambda>a. \<not> P a) xs) = mset xs"
  by (induction xs) auto

lemma mset_ledgerOrder: "mset (ledgerOrder order xs) = mset xs"
proof -
  have "mset (ledgerOrder order xs) =
        mset (filter (\<lambda>a. itemId a \<in> set (remdups order)) xs) + mset (filter (\<lambda>a. itemId a \<notin> set order) xs)"
    unfolding ledgerOrder_def mset_append by (simp only: mset_groups[OF distinct_remdups])
  also have "\<dots> = mset xs"
    unfolding set_remdups by (rule mset_partition_filter)
  finally show ?thesis .
qed

lemma filter_eq_filter_eq:
  "filter (\<lambda>a. f a = c) (filter (\<lambda>a. f a = k) xs) = (if c = k then filter (\<lambda>a. f a = c) xs else [])"
  by (induction xs) auto

lemma filter_groups:
  "distinct ks \<Longrightarrow>
     filter (\<lambda>a. f a = c) (concat (map (\<lambda>k. filter (\<lambda>a. f a = k) xs) ks))
       = (if c \<in> set ks then filter (\<lambda>a. f a = c) xs else [])"
proof (induction ks)
  case Nil then show ?case by simp
next
  case (Cons k ks)
  then have ih: "filter (\<lambda>a. f a = c) (concat (map (\<lambda>k. filter (\<lambda>a. f a = k) xs) ks))
       = (if c \<in> set ks then filter (\<lambda>a. f a = c) xs else [])" by simp
  from Cons.prems have nk: "k \<notin> set ks" by simp
  have "filter (\<lambda>a. f a = c) (concat (map (\<lambda>k. filter (\<lambda>a. f a = k) xs) (k # ks))) =
        filter (\<lambda>a. f a = c) (filter (\<lambda>a. f a = k) xs)
        @ filter (\<lambda>a. f a = c) (concat (map (\<lambda>k. filter (\<lambda>a. f a = k) xs) ks))"
    by (simp del: filter_filter)
  also have "\<dots> = (if c = k then filter (\<lambda>a. f a = c) xs else [])
                   @ (if c \<in> set ks then filter (\<lambda>a. f a = c) xs else [])"
    by (simp only: ih filter_eq_filter_eq)
  also have "\<dots> = (if c \<in> set (k # ks) then filter (\<lambda>a. f a = c) xs else [])"
    using nk by auto
  finally show ?case .
qed

lemma filter_notin_filter_eq:
  "filter (\<lambda>a. f a \<notin> S) (filter (\<lambda>a. f a = k) xs) = (if k \<in> S then [] else filter (\<lambda>a. f a = k) xs)"
  by (induction xs) auto

lemma filter_groups_notin:
  "set ks \<subseteq> S \<Longrightarrow> filter (\<lambda>a. f a \<notin> S) (concat (map (\<lambda>k. filter (\<lambda>a. f a = k) xs) ks)) = []"
proof (induction ks)
  case Nil then show ?case by simp
next
  case (Cons k ks)
  then have ih: "filter (\<lambda>a. f a \<notin> S) (concat (map (\<lambda>k. filter (\<lambda>a. f a = k) xs) ks)) = []"
    and k: "k \<in> S" by simp_all
  have "filter (\<lambda>a. f a \<notin> S) (concat (map (\<lambda>k. filter (\<lambda>a. f a = k) xs) (k # ks))) =
        filter (\<lambda>a. f a \<notin> S) (filter (\<lambda>a. f a = k) xs)
        @ filter (\<lambda>a. f a \<notin> S) (concat (map (\<lambda>k. filter (\<lambda>a. f a = k) xs) ks))"
    by (simp del: filter_filter)
  also have "\<dots> = []" using k by (simp only: ih filter_notin_filter_eq) simp
  finally show ?case .
qed

lemma filter_eq_filter_notin:
  "filter (\<lambda>a. f a = c) (filter (\<lambda>a. f a \<notin> S) xs) = (if c \<in> S then [] else filter (\<lambda>a. f a = c) xs)"
  by (induction xs) auto

lemma filter_notin_idem:
  "filter (\<lambda>a. f a \<notin> S) (filter (\<lambda>a. f a \<notin> S) xs) = filter (\<lambda>a. f a \<notin> S) xs"
  by (induction xs) auto

lemma filter_ledgerOrder_id:
  "filter (\<lambda>a. itemId a = c) (ledgerOrder order xs) = filter (\<lambda>a. itemId a = c) xs"
proof -
  have "filter (\<lambda>a. itemId a = c) (ledgerOrder order xs) =
        (if c \<in> set (remdups order) then filter (\<lambda>a. itemId a = c) xs else [])
        @ (if c \<in> set order then [] else filter (\<lambda>a. itemId a = c) xs)"
    unfolding ledgerOrder_def filter_append
    by (simp only: filter_groups[OF distinct_remdups] filter_eq_filter_notin)
  then show ?thesis by (cases "c \<in> set order") simp_all
qed

lemma filter_ledgerOrder_unknown:
  "filter (\<lambda>a. itemId a \<notin> set order) (ledgerOrder order xs) = filter (\<lambda>a. itemId a \<notin> set order) xs"
proof -
  have "set (remdups order) \<subseteq> set order" by simp
  from filter_groups_notin[OF this, of itemId xs] show ?thesis
    unfolding ledgerOrder_def filter_append by (simp only: filter_notin_idem append_Nil)
qed

lemma sorted_group: "sorted (map (\<lambda>a. (g (f a) :: nat)) (filter (\<lambda>a. f a = k) xs))"
  by (induction xs) auto

lemma sorted_groups:
  "sorted_wrt (<) (map g ks) \<Longrightarrow>
     sorted (map (\<lambda>a. (g (f a) :: nat)) (concat (map (\<lambda>k. filter (\<lambda>a. f a = k) xs) ks)))"
proof (induction ks)
  case Nil then show ?case by simp
next
  case (Cons k ks)
  then have ih: "sorted (map (\<lambda>a. g (f a)) (concat (map (\<lambda>k. filter (\<lambda>a. f a = k) xs) ks)))"
    and lt: "\<forall>k'\<in>set ks. g k < g k'" by simp_all
  have cross: "\<forall>a\<in>set (filter (\<lambda>a. f a = k) xs).
               \<forall>b\<in>set (concat (map (\<lambda>k. filter (\<lambda>a. f a = k) xs) ks)). g (f a) \<le> g (f b)"
    using lt by (auto intro: less_imp_le)
  show ?case
    unfolding list.map concat.simps map_append sorted_append
    using ih cross sorted_group[of g f k xs] by auto
qed

lemma sorted_ledgerOrder: "sorted (map (ordKey order) (ledgerOrder order xs))"
proof -
  let ?g = "\<lambda>k. the (lastPos 0 order k)"
  let ?grp = "concat (map (\<lambda>k. filter (\<lambda>a. itemId a = k) xs) (remdups order))"
  let ?rest = "filter (\<lambda>a. itemId a \<notin> set order) xs"
  have in_order: "\<And>a. a \<in> set ?grp \<Longrightarrow> itemId a \<in> set order" by auto
  have "map (ordKey order) ?grp = map (\<lambda>a. ?g (itemId a)) ?grp"
    by (rule map_cong[OF refl]) (simp only: ordKey_known[OF in_order])
  moreover have "sorted (map (\<lambda>a. ?g (itemId a)) ?grp)"
    by (rule sorted_groups[OF lastPos_sorted])
  ultimately have 1: "sorted (map (ordKey order) ?grp)" by (simp only:)
  have 2: "sorted (map (ordKey order) ?rest)"
    by (induction xs) (auto simp: ordKey_unknown)
  have 3: "\<forall>a\<in>set ?grp. \<forall>b\<in>set ?rest. ordKey order a \<le> ordKey order b"
  proof (intro ballI)
    fix a b assume "a \<in> set ?grp" "b \<in> set ?rest"
    then have "itemId a \<in> set order" "itemId b \<notin> set order" using in_order by auto
    with ordKey_known_less[of a order] ordKey_unknown[of b order]
    show "ordKey order a \<le> ordKey order b" by simp
  qed
  from 1 2 3 show ?thesis
    unfolding ledgerOrder_def map_append sorted_append by auto
qed

lemma sort_key_ledgerOrder: "sort_key (ordKey order) xs = ledgerOrder order xs"
proof (rule properties_for_sort_key)
  show "mset (ledgerOrder order xs) = mset xs" by (rule mset_ledgerOrder)
  show "sorted (map (ordKey order) (ledgerOrder order xs))" by (rule sorted_ledgerOrder)
  fix k
  show "filter (\<lambda>x. ordKey order k = ordKey order x) (ledgerOrder order xs) =
        filter (\<lambda>x. ordKey order k = ordKey order x) xs"
    by (cases "itemId k \<in> set order")
       (simp_all add: ordKey_eq_iff filter_ledgerOrder_id filter_ledgerOrder_unknown)
qed

lemma sortByContentOrder_ledgerOrder: "sortByContentOrder order xs = ledgerOrder order xs"
  by (cases order) (simp_all add: sortByContentOrder_def arraySort_sort_key sort_key_ledgerOrder ledgerOrder_def)

lemma orderMapOf_Some_iff:
  "orderMapOf order k = Some i \<longleftrightarrow>
     i < length order \<and> order ! i = k \<and> (\<forall>j<length order. i < j \<longrightarrow> order ! j \<noteq> k)"
proof
  assume "orderMapOf order k = Some i"
  then have s: "lastPos 0 order k = Some i" by (simp add: orderMapOf_lastPos)
  from lastPos_bounds[OF s] lastPos_nth[OF s] lastPos_last[OF s]
  show "i < length order \<and> order ! i = k \<and> (\<forall>j<length order. i < j \<longrightarrow> order ! j \<noteq> k)"
    by simp
next
  assume a: "i < length order \<and> order ! i = k \<and> (\<forall>j<length order. i < j \<longrightarrow> order ! j \<noteq> k)"
  then have "k \<in> set order" by auto
  then obtain i' where s: "lastPos 0 order k = Some i'"
    using lastPos_None[of 0 order k] by auto
  from lastPos_bounds[OF s] lastPos_nth[OF s] lastPos_last[OF s, of i] a
  have "i' = i" by (metis diff_zero linorder_neqE_nat add_0)
  with s show "orderMapOf order k = Some i" by (simp add: orderMapOf_lastPos)
qed

lemma concat_map_filter_empty:
  "(\<And>k. k \<in> set ks \<Longrightarrow> \<not> P k \<Longrightarrow> g k = []) \<Longrightarrow> concat (map g (filter P ks)) = concat (map g ks)"
  by (induction ks) auto

lemma ledgerOrder_present_ids:
  "ledgerOrder (filter (\<lambda>k. k \<in> itemId ` set loaded) order) loaded = ledgerOrder order loaded"
proof -
  let ?P = "\<lambda>k. k \<in> itemId ` set loaded"
  let ?g = "\<lambda>k. filter (\<lambda>a. itemId a = k) loaded"
  have g: "\<And>k. \<not> ?P k \<Longrightarrow> ?g k = []" by (auto simp: filter_empty_conv)
  have 1: "concat (map ?g (remdups (filter ?P order))) = concat (map ?g (remdups order))"
    unfolding remdups_filter by (rule concat_map_filter_empty) (rule g)
  have 2: "filter (\<lambda>a. itemId a \<notin> set (filter ?P order)) loaded = filter (\<lambda>a. itemId a \<notin> set order) loaded"
    by (rule filter_cong) auto
  show ?thesis unfolding ledgerOrder_def 1 2 ..
qed

lemma filter_known_ledgerOrder:
  "filter (\<lambda>a. itemId a \<in> set order) (ledgerOrder order loaded)
     = concat (map (\<lambda>k. filter (\<lambda>a. itemId a = k) loaded) (remdups order))"
proof -
  let ?grp = "concat (map (\<lambda>k. filter (\<lambda>a. itemId a = k) loaded) (remdups order))"
  have 1: "filter (\<lambda>a. itemId a \<in> set order) ?grp = ?grp"
    by (rule filter_True) auto
  have 2: "filter (\<lambda>a. itemId a \<in> set order) (filter (\<lambda>a. itemId a \<notin> set order) loaded) = []"
    by (induction loaded) auto
  show ?thesis unfolding ledgerOrder_def filter_append 1 2 by simp
qed

lemma ledgerOrder_split:
  "ledgerOrder order loaded =
     filter (\<lambda>a. itemId a \<in> set order) (ledgerOrder order loaded)
     @ filter (\<lambda>a. itemId a \<notin> set order) loaded"
  unfolding filter_known_ledgerOrder by (simp add: ledgerOrder_def)

lemma sorted_map_filter: "sorted (map f xs) \<Longrightarrow> sorted (map f (filter P xs))"
  by (induction xs) auto

lemma sorted_known_ledgerOrder:
  "sorted (map (\<lambda>a. the (orderMapOf order (itemId a)))
             (filter (\<lambda>a. itemId a \<in> set order) (ledgerOrder order loaded)))"
proof -
  let ?known = "filter (\<lambda>a. itemId a \<in> set order) (ledgerOrder order loaded)"
  have "map (\<lambda>a. the (orderMapOf order (itemId a))) ?known = map (ordKey order) ?known"
    by (rule map_cong[OF refl]) (simp add: ordKey_known orderMapOf_lastPos)
  moreover have "sorted (map (ordKey order) ?known)"
    by (rule sorted_map_filter[OF sorted_ledgerOrder])
  ultimately show ?thesis by (simp only:)
qed

lemma ledgerOrder_example:
  assumes "map itemId loaded = [''1'', ''2'', ''3'']"
  shows "map itemId (ledgerOrder [''3'', ''1''] loaded) = [''3'', ''1'', ''2'']"
proof -
  from assms obtain a b c where l: "loaded = [a, b, c]"
    and i: "itemId a = ''1''" "itemId b = ''2''" "itemId c = ''3''"
    by (auto simp: map_eq_Cons_conv)
  show ?thesis unfolding l by (simp add: ledgerOrder_def i)
qed

section \<open>The ordering of loaded items\<close>

text \<open>
  Claim C1. For every list of loaded items and every ledger, the sorting step of
  fetchContent
  \<^item> gives \<open>ledgerOrder\<close>: the items grouped by the ids of the ledger, in the order of the
    ledger, then the items whose id the ledger does not hold, in arrival order;
  \<^item> permutes the items;
  \<^item> does not change when the ids that no item carries are taken out of the ledger;
  \<^item> puts the items whose id is absent from the ledger after all the others, in arrival
    order;
  \<^item> orders the others by the index the ledger gives their id, which is the place of the
    id in the ledger (its last place, should the ledger hold it more than once);
  \<^item> turns arrival order "1", "2", "3" with ledger ["3", "1"] into "3", "1", "2".
  The same sorting code stands in useFirebaseDB and (twice) in useGitHubDB.
\<close>

theorem sorting_follows_the_ledger:
  "sortByContentOrder order loaded = ledgerOrder order loaded
   \<and> mset (sortByContentOrder order loaded) = mset loaded
   \<and> sortByContentOrder (filter (\<lambda>k. k \<in> itemId ` set loaded) order) loaded
       = sortByContentOrder order loaded
   \<and> sortByContentOrder order loaded
       = filter (\<lambda>a. itemId a \<in> set order) (sortByContentOrder order loaded)
         @ filter (\<lambda>a. itemId a \<notin> set order) loaded
   \<and> sorted (map (\<lambda>a. the (orderMapOf order (itemId a)))
               (filter (\<lambda>a. itemId a \<in> set order) (sortByContentOrder order loaded)))
   \<and> (\<forall>k i. orderMapOf order k = Some i \<longleftrightarrow>
          i < length order \<and> order ! i = k \<and> (\<forall>j<length order. i < j \<longrightarrow> order ! j \<noteq> k))
   \<and> (map itemId loaded = [''1'', ''2'', ''3''] \<longrightarrow>
        map itemId (sortByContentOrder [''3'', ''1''] loaded) = [''3'', ''1'', ''2''])"
proof (intro conjI)
  show "sortByContentOrder order loaded = ledgerOrder order loaded"
    by (rule sortByContentOrder_ledgerOrder)
  show "mset (sortByContentOrder order loaded) = mset loaded"
    unfolding sortByContentOrder_ledgerOrder by (rule mset_ledgerOrder)
  show "sortByContentOrder (filter (\<lambda>k. k \<in> itemId ` set loaded) order) loaded
       = sortByContentOrder order loaded"
    unfolding sortByContentOrder_ledgerOrder by (rule ledgerOrder_present_ids)
  show "sortByContentOrder order loaded
       = filter (\<lambda>a. itemId a \<in> set order) (sortByContentOrder order loaded)
         @ filter (\<lambda>a. itemId a \<notin> set order) loaded"
    unfolding sortByContentOrder_ledgerOrder by (rule ledgerOrder_split)
  show "sorted (map (\<lambda>a. the (orderMapOf order (itemId a)))
               (filter (\<lambda>a. itemId a \<in> set order) (sortByContentOrder order loaded)))"
    unfolding sortByContentOrder_ledgerOrder by (rule sorted_known_ledgerOrder)
  show "\<forall>k i. orderMapOf order k = Some i \<longleftrightarrow>
          i < length order \<and> order ! i = k \<and> (\<forall>j<length order. i < j \<longrightarrow> order ! j \<noteq> k)"
    by (intro allI) (rule orderMapOf_Some_iff)
  show "map itemId loaded = [''1'', ''2'', ''3''] \<longrightarrow>
        map itemId (sortByContentOrder [''3'', ''1''] loaded) = [''3'', ''1'', ''2'']"
    unfolding sortByContentOrder_ledgerOrder by (intro impI) (rule ledgerOrder_example)
qed

text \<open>The example of the specification, with three concrete items.\<close>

theorem sorting_follows_the_ledger_witness:
  "map itemId
      [\<lparr>itemId = ''1'', itemType = QUOTE, title = None, body = ''q'', excerpt = None, date = None\<rparr>,
       \<lparr>itemId = ''2'', itemType = STORY, title = Some ''s'', body = ''b'', excerpt = None, date = None\<rparr>,
       \<lparr>itemId = ''3'', itemType = POEM, title = Some ''p'', body = ''c'', excerpt = None, date = None\<rparr>]
     = [''1'', ''2'', ''3'']
   \<and> map itemId (sortByContentOrder [''3'', ''1'']
      [\<lparr>itemId = ''1'', itemType = QUOTE, title = None, body = ''q'', excerpt = None, date = None\<rparr>,
       \<lparr>itemId = ''2'', itemType = STORY, title = Some ''s'', body = ''b'', excerpt = None, date = None\<rparr>,
       \<lparr>itemId = ''3'', itemType = POEM, title = Some ''p'', body = ''c'', excerpt = None, date = None\<rparr>])
     = [''3'', ''1'', ''2'']"
proof -
  let ?L = "[\<lparr>itemId = ''1'', itemType = QUOTE, title = None, body = ''q'', excerpt = None, date = None\<rparr>,
       \<lparr>itemId = ''2'', itemType = STORY, title = Some ''s'', body = ''b'', excerpt = None, date = None\<rparr>,
       \<lparr>itemId = ''3'', itemType = POEM, title = Some ''p'', body = ''c'', excerpt = None, date = None\<rparr>]"
  have h: "map itemId ?L = [''1'', ''2'', ''3'']" by simp
  note t = sorting_follows_the_ledger[of "[''3'', ''1'']" ?L]
  from t have "map itemId ?L = [''1'', ''2'', ''3''] \<longrightarrow>
        map itemId (sortByContentOrder [''3'', ''1''] ?L) = [''3'', ''1'', ''2'']"
    by (elim conjE)
  with h show ?thesis by (intro conjI) (rule h, erule mp, rule h)
qed

section \<open>The in-memory item list\<close>

lemma find_None_itemId: "find (\<lambda>i. itemId i = k) prev = None \<longleftrightarrow> (\<forall>i\<in>set prev. itemId i \<noteq> k)"
  by (auto simp: find_None_iff)

lemma saveItemUpdater_exists:
  "\<exists>i\<in>set prev. itemId i = itemId item \<Longrightarrow>
     saveItemUpdater item prev = map (\<lambda>i. if itemId i = itemId item then item else i) prev"
  using find_None_itemId[of "itemId item" prev]
  by (cases "find (\<lambda>i. itemId i = itemId item) prev") (auto simp: saveItemUpdater_def)

lemma saveItemUpdater_new:
  "\<forall>i\<in>set prev. itemId i \<noteq> itemId item \<Longrightarrow> saveItemUpdater item prev = item # prev"
  using find_None_itemId[of "itemId item" prev] by (simp add: saveItemUpdater_def)

lemma map_replace_unique:
  assumes "j < length prev" "f (prev ! j) = k"
    and "\<forall>j'<length prev. j' \<noteq> j \<longrightarrow> f (prev ! j') \<noteq> k"
  shows "map (\<lambda>i. if f i = k then item else i) prev = prev[j := item]"
proof (rule nth_equalityI)
  show "length (map (\<lambda>i. if f i = k then item else i) prev) = length (prev[j := item])" by simp
next
  fix n assume "n < length (map (\<lambda>i. if f i = k then item else i) prev)"
  then have n: "n < length prev" by simp
  with assms show "map (\<lambda>i. if f i = k then item else i) prev ! n = prev[j := item] ! n"
    by (cases "n = j") (auto simp: nth_list_update)
qed

text \<open>
  Claim C2. For every item list and every item passed to saveItem: if some element has
  the id of the item, the new list has the length of the old one and holds the new item
  at each place where the old list held that id, and the old element at every other
  place; when exactly one place \<open>j\<close> holds the id (as in every list with unique ids),
  this is the old list with place \<open>j\<close> replaced. If no element has the id, the new list
  is the item put in front of the old list, one element longer. The updater is the same
  in useFirebaseDB and in useGitHubDB.
\<close>

theorem saveItem_replaces_in_place_or_prepends:
  "((\<exists>i\<in>set prev. itemId i = itemId item) \<longrightarrow>
      length (saveItemUpdater item prev) = length prev \<and>
      (\<forall>j<length prev. saveItemUpdater item prev ! j =
          (if itemId (prev ! j) = itemId item then item else prev ! j)))
   \<and> (\<forall>j<length prev.
        itemId (prev ! j) = itemId item \<and>
        (\<forall>j'<length prev. j' \<noteq> j \<longrightarrow> itemId (prev ! j') \<noteq> itemId item) \<longrightarrow>
        saveItemUpdater item prev = prev[j := item])
   \<and> ((\<forall>i\<in>set prev. itemId i \<noteq> itemId item) \<longrightarrow>
        saveItemUpdater item prev = item # prev \<and>
        length (saveItemUpdater item prev) = Suc (length prev))"
proof -
  have 1: "length (saveItemUpdater item prev) = length prev \<and>
      (\<forall>j<length prev. saveItemUpdater item prev ! j =
          (if itemId (prev ! j) = itemId item then item else prev ! j))"
    if ex: "\<exists>i\<in>set prev. itemId i = itemId item"
    by (simp add: saveItemUpdater_exists[OF ex])
  have 2: "saveItemUpdater item prev = prev[j := item]"
    if j: "j < length prev" and u: "itemId (prev ! j) = itemId item"
      and o: "\<forall>j'<length prev. j' \<noteq> j \<longrightarrow> itemId (prev ! j') \<noteq> itemId item" for j
  proof -
    from j u have ex: "\<exists>i\<in>set prev. itemId i = itemId item"
      by (auto intro: bexI[of _ "prev ! j"])
    show ?thesis unfolding saveItemUpdater_exists[OF ex]
      by (rule map_replace_unique[OF j u o])
  qed
  have 3: "saveItemUpdater item prev = item # prev \<and>
        length (saveItemUpdater item prev) = Suc (length prev)"
    if n: "\<forall>i\<in>set prev. itemId i \<noteq> itemId item"
    by (simp add: saveItemUpdater_new[OF n])
  from 1 2 3 show ?thesis by blast
qed

text \<open>An existing id replaced in place, and a new id put in front.\<close>

theorem saveItem_replaces_in_place_or_prepends_witness:
  "saveItemUpdater
      \<lparr>itemId = ''2'', itemType = POEM, title = Some ''new'', body = ''n'', excerpt = None, date = None\<rparr>
      [\<lparr>itemId = ''1'', itemType = QUOTE, title = None, body = ''q'', excerpt = None, date = None\<rparr>,
       \<lparr>itemId = ''2'', itemType = STORY, title = Some ''old'', body = ''b'', excerpt = None, date = None\<rparr>]
     = [\<lparr>itemId = ''1'', itemType = QUOTE, title = None, body = ''q'', excerpt = None, date = None\<rparr>,
        \<lparr>itemId = ''2'', itemType = POEM, title = Some ''new'', body = ''n'', excerpt = None, date = None\<rparr>]
   \<and> saveItemUpdater
      \<lparr>itemId = ''3'', itemType = POEM, title = Some ''new'', body = ''n'', excerpt = None, date = None\<rparr>
      [\<lparr>itemId = ''1'', itemType = QUOTE, title = None, body = ''q'', excerpt = None, date = None\<rparr>]
     = [\<lparr>itemId = ''3'', itemType = POEM, title = Some ''new'', body = ''n'', excerpt = None, date = None\<rparr>,
        \<lparr>itemId = ''1'', itemType = QUOTE, title = None, body = ''q'', excerpt = None, date = None\<rparr>]"
proof -
  let ?q = "\<lparr>itemId = ''1'', itemType = QUOTE, title = None, body = ''q'', excerpt = None, date = None\<rparr>"
  let ?old = "\<lparr>itemId = ''2'', itemType = STORY, title = Some ''old'', body = ''b'', excerpt = None, date = None\<rparr>"
  let ?new2 = "\<lparr>itemId = ''2'', itemType = POEM, title = Some ''new'', body = ''n'', excerpt = None, date = None\<rparr>"
  let ?new3 = "\<lparr>itemId = ''3'', itemType = POEM, title = Some ''new'', body = ''n'', excerpt = None, date = None\<rparr>"
  note t2 = saveItem_replaces_in_place_or_prepends[of "[?q, ?old]" ?new2]
  note t3 = saveItem_replaces_in_place_or_prepends[of "[?q]" ?new3]
  from t2 have "\<forall>j<length [?q, ?old].
        itemId ([?q, ?old] ! j) = itemId ?new2 \<and>
        (\<forall>j'<length [?q, ?old]. j' \<noteq> j \<longrightarrow> itemId ([?q, ?old] ! j') \<noteq> itemId ?new2) \<longrightarrow>
        saveItemUpdater ?new2 [?q, ?old] = [?q, ?old][j := ?new2]"
    by (elim conjE)
  then have "1 < length [?q, ?old] \<longrightarrow>
        itemId ([?q, ?old] ! 1) = itemId ?new2 \<and>
        (\<forall>j'<length [?q, ?old]. j' \<noteq> 1 \<longrightarrow> itemId ([?q, ?old] ! j') \<noteq> itemId ?new2) \<longrightarrow>
        saveItemUpdater ?new2 [?q, ?old] = [?q, ?old][1 := ?new2]"
    by (rule spec)
  then have a: "saveItemUpdater ?new2 [?q, ?old] = [?q, ?new2]"
    by (simp add: less_Suc_eq)
  from t3 have "(\<forall>i\<in>set [?q]. itemId i \<noteq> itemId ?new3) \<longrightarrow>
        saveItemUpdater ?new3 [?q] = ?new3 # [?q] \<and>
        length (saveItemUpdater ?new3 [?q]) = Suc (length [?q])"
    by (elim conjE)
  then have b: "saveItemUpdater ?new3 [?q] = [?new3, ?q]" by simp
  from a b show ?thesis by (rule conjI)
qed

lemma distinct_map_replace:
  "distinct (map f prev) \<Longrightarrow> f item = k \<Longrightarrow>
     distinct (map f (map (\<lambda>i. if f i = k then item else i) prev))"
proof -
  assume d: "distinct (map f prev)" and k: "f item = k"
  have e: "map f (map (\<lambda>i. if f i = k then item else i) prev) = map f prev"
    using k by (induction prev) auto
  show ?thesis unfolding e by (rule d)
qed

lemma count_map_replace:
  "distinct (map f prev) \<Longrightarrow> f item = k \<Longrightarrow> \<exists>i\<in>set prev. f i = k \<Longrightarrow>
     length (filter (\<lambda>i. f i = k) (map (\<lambda>i. if f i = k then item else i) prev)) = 1"
proof (induction prev)
  case Nil then show ?case by simp
next
  case (Cons a prev)
  show ?case
  proof (cases "f a = k")
    case True
    with Cons.prems have "\<forall>i\<in>set prev. f i \<noteq> k" by (auto simp: image_iff)
    then have "filter (\<lambda>i. f i = k) (map (\<lambda>i. if f i = k then item else i) prev) = []"
      by (induction prev) auto
    with True Cons.prems(2) show ?thesis by simp
  next
    case False
    with Cons show ?thesis by auto
  qed
qed

text \<open>
  Claim C10. Unique ids are an invariant of the item list: for every list in which no
  two items share an id, the list after saveItem again holds no id twice and holds the id
  of the saved item exactly once, and the list after deleteItem again holds no id twice
  and does not hold the deleted id.
\<close>

theorem item_ids_stay_unique:
  "distinct (map itemId prev) \<Longrightarrow>
     distinct (map itemId (saveItemUpdater item prev)) \<and>
     length (filter (\<lambda>i. itemId i = itemId item) (saveItemUpdater item prev)) = 1 \<and>
     distinct (map itemId (deleteItemUpdater k prev)) \<and>
     filter (\<lambda>i. itemId i = k) (deleteItemUpdater k prev) = []"
proof (intro conjI)
  assume d: "distinct (map itemId prev)"
  show "distinct (map itemId (saveItemUpdater item prev))"
  proof (cases "\<exists>i\<in>set prev. itemId i = itemId item")
    case True
    show ?thesis unfolding saveItemUpdater_exists[OF True]
      by (rule distinct_map_replace[OF d refl])
  next
    case False
    then have n: "\<forall>i\<in>set prev. itemId i \<noteq> itemId item" by simp
    with d show ?thesis unfolding saveItemUpdater_new[OF n] by (auto simp: image_iff)
  qed
  show "length (filter (\<lambda>i. itemId i = itemId item) (saveItemUpdater item prev)) = 1"
  proof (cases "\<exists>i\<in>set prev. itemId i = itemId item")
    case True
    show ?thesis unfolding saveItemUpdater_exists[OF True]
      by (rule count_map_replace[OF d refl True])
  next
    case False
    then have n: "\<forall>i\<in>set prev. itemId i \<noteq> itemId item" by simp
    then have "filter (\<lambda>i. itemId i = itemId item) prev = []" by (induction prev) auto
    then show ?thesis unfolding saveItemUpdater_new[OF n] by simp
  qed
  show "distinct (map itemId (deleteItemUpdater k prev))"
    using d unfolding deleteItemUpdater_def by (rule distinct_map_filter)
  show "filter (\<lambda>i. itemId i = k) (deleteItemUpdater k prev) = []"
    unfolding deleteItemUpdater_def by (induction prev) auto
qed

theorem item_ids_stay_unique_witness:
  "distinct (map itemId
      [\<lparr>itemId = ''1'', itemType = QUOTE, title = None, body = ''q'', excerpt = None, date = None\<rparr>,
       \<lparr>itemId = ''2'', itemType = STORY, title = Some ''old'', body = ''b'', excerpt = None, date = None\<rparr>])
   \<and> distinct (map itemId (saveItemUpdater
      \<lparr>itemId = ''2'', itemType = POEM, title = Some ''new'', body = ''n'', excerpt = None, date = None\<rparr>
      [\<lparr>itemId = ''1'', itemType = QUOTE, title = None, body = ''q'', excerpt = None, date = None\<rparr>,
       \<lparr>itemId = ''2'', itemType = STORY, title = Some ''old'', body = ''b'', excerpt = None, date = None\<rparr>]))
   \<and> distinct (map itemId (deleteItemUpdater ''1''
      [\<lparr>itemId = ''1'', itemType = QUOTE, title = None, body = ''q'', excerpt = None, date = None\<rparr>,
       \<lparr>itemId = ''2'', itemType = STORY, title = Some ''old'', body = ''b'', excerpt = None, date = None\<rparr>]))"
proof -
  let ?L = "[\<lparr>itemId = ''1'', itemType = QUOTE, title = None, body = ''q'', excerpt = None, date = None\<rparr>,
       \<lparr>itemId = ''2'', itemType = STORY, title = Some ''old'', body = ''b'', excerpt = None, date = None\<rparr>]"
  have d: "distinct (map itemId ?L)" by simp
  from item_ids_stay_unique[OF d] d show ?thesis by (intro conjI) (rule d, blast, blast)
qed

section \<open>The access gate\<close>

text \<open>
  Claim C8. For every submitted string, login returns true exactly when the string
  equals the configured secret, whatever the state before (two calls with the same string
  in different states return the same); on success it sets \<open>isAuthenticated\<close> and the
  session entry \<^verbatim>\<open>cms_authenticated\<close>, on failure it changes nothing; logout clears
  both.
\<close>

theorem login_is_stateless_comparison:
  "fst (login env pw a) = (pw = ADMIN_PASSWORD env)
   \<and> fst (login env pw a) = fst (login env pw a')
   \<and> (pw = ADMIN_PASSWORD env \<longrightarrow>
        isAuthenticated (snd (login env pw a)) \<and>
        cms_authenticated (snd (login env pw a)) = Some ''true'')
   \<and> (pw \<noteq> ADMIN_PASSWORD env \<longrightarrow> snd (login env pw a) = a)
   \<and> \<not> isAuthenticated (logout a) \<and> cms_authenticated (logout a) = None"
  by (simp add: login_def logout_def)

text \<open>With the built-in secret: the secret is accepted, another string is not.\<close>

theorem login_is_stateless_comparison_witness:
  "fst (login None ''jacopo'' (initialAuth None))
   \<and> cms_authenticated (snd (login None ''jacopo'' (initialAuth None))) = Some ''true''
   \<and> \<not> fst (login None ''jacop'' (initialAuth None))
   \<and> snd (login None ''jacop'' (initialAuth None)) = initialAuth None"
  using login_is_stateless_comparison[of None "''jacopo''" "initialAuth None" "initialAuth None"]
    login_is_stateless_comparison[of None "''jacop''" "initialAuth None" "initialAuth None"]
  by (simp add: ADMIN_PASSWORD_def)

section \<open>The lockout of the login form\<close>

lemmas login_defs = handleSubmit_def lockoutEffect_def intervalTick_def loginInv_def
  MAX_ATTEMPTS_def LOCKOUT_DURATION_def Let_def

lemma loginInv_initial: "loginInv initialLogin"
  by (simp add: loginInv_def initialLogin_def MAX_ATTEMPTS_def)

lemma loginStep_inv: "loginInv s \<Longrightarrow> loginInv (fst (loginStep onLogin ev (s, e)))"
  by (cases ev) (auto simp: login_defs split: prod.splits)

lemma loginRun_inv: "loginInv s \<Longrightarrow> loginInv (fst (loginRun onLogin evs (s, e)))"
proof (induction evs arbitrary: s e)
  case Nil then show ?case by (simp add: loginRun_def)
next
  case (Cons ev evs)
  obtain s' e' where st: "loginStep onLogin ev (s, e) = (s', e')" by (cases "loginStep onLogin ev (s, e)")
  with loginStep_inv[OF Cons.prems, of onLogin ev e] have "loginInv s'" by simp
  from Cons.IH[OF this, of e'] st show ?case by (simp add: loginRun_def)
qed

lemma submit_locked: "isLocked s \<Longrightarrow> loginInv s \<Longrightarrow> loginStep onLogin Submit (s, e) = (s, e)"
  by (auto simp: login_defs)

lemma submit_failed:
  "\<not> isLocked s \<Longrightarrow> loginInv s \<Longrightarrow> \<not> ToBoolean (fst (onLogin (password s) e)) \<Longrightarrow>
     attempts (fst (loginStep onLogin Submit (s, e))) = attempts s + 1 \<and>
     isLocked (fst (loginStep onLogin Submit (s, e))) = (attempts s = 2) \<and>
     (attempts s = 2 \<longrightarrow> lockoutTimer (fst (loginStep onLogin Submit (s, e))) = 30)"
  by (auto simp: login_defs split: prod.splits)

lemma submit_passed:
  "\<not> isLocked s \<Longrightarrow> loginInv s \<Longrightarrow> ToBoolean (fst (onLogin (password s) e)) \<Longrightarrow>
     attempts (fst (loginStep onLogin Submit (s, e))) = attempts s \<and>
     \<not> isLocked (fst (loginStep onLogin Submit (s, e)))"
  by (auto simp: login_defs split: prod.splits)

lemma loginRun_Cons: "loginRun onLogin (ev # evs) se = loginRun onLogin evs (loginStep onLogin ev se)"
  by (simp add: loginRun_def)

lemma loginRun_append: "loginRun onLogin (evs @ evs') se = loginRun onLogin evs' (loginRun onLogin evs se)"
  by (simp add: loginRun_def)

lemma ticks_count_down:
  "isLocked s \<Longrightarrow> int n < lockoutTimer s \<Longrightarrow>
     loginRun onLogin (replicate n Tick) (s, e) = (s\<lparr>lockoutTimer := lockoutTimer s - int n\<rparr>, e)"
proof (induction n arbitrary: s)
  case 0 then show ?case by (simp add: loginRun_def)
next
  case (Suc n)
  let ?s1 = "s\<lparr>lockoutTimer := lockoutTimer s - 1\<rparr>"
  from Suc.prems have st: "loginStep onLogin Tick (s, e) = (?s1, e)"
    by (simp add: login_defs)
  from Suc.prems have "isLocked ?s1" "int n < lockoutTimer ?s1" by simp_all
  from Suc.IH[OF this] st show ?case by (simp add: loginRun_Cons)
qed

lemma ticks_release:
  "isLocked s \<Longrightarrow> 0 < lockoutTimer s \<Longrightarrow>
     loginRun onLogin (replicate (nat (lockoutTimer s)) Tick) (s, e)
       = (s\<lparr>lockoutTimer := 0, isLocked := False, attempts := 0\<rparr>, e)"
proof -
  assume l: "isLocked s" and t: "0 < lockoutTimer s"
  then obtain n where n: "nat (lockoutTimer s) = Suc n" by (cases "nat (lockoutTimer s)") auto
  then have lt: "int n < lockoutTimer s" and eq: "lockoutTimer s - int n = 1" by linarith+
  have r: "replicate (Suc n) Tick = replicate n Tick @ [Tick]" by (simp add: replicate_append_same)
  show ?thesis unfolding n r loginRun_append ticks_count_down[OF l lt]
    by (simp add: loginRun_def login_defs l eq)
qed

lemma submissions_Cons: "submissions (pw # pws) = Change pw # Submit # submissions pws"
  by (simp add: submissions_def)

lemma submissions_locked:
  "loginInv s \<Longrightarrow> isLocked s \<Longrightarrow>
     isLocked (fst (loginRun onLogin (submissions pws) (s, e))) \<and>
     attempts (fst (loginRun onLogin (submissions pws) (s, e))) = attempts s"
proof (induction pws arbitrary: s)
  case Nil then show ?case by (simp add: submissions_def loginRun_def)
next
  case (Cons pw pws)
  let ?s1 = "s\<lparr>password := pw\<rparr>"
  from Cons.prems have st: "loginStep onLogin Submit (loginStep onLogin (Change pw) (s, e)) = (?s1, e)"
    by (auto simp: login_defs)
  from Cons.prems have "loginInv ?s1" "isLocked ?s1" by (simp_all add: loginInv_def)
  from Cons.IH[OF this] show ?case by (simp only: submissions_Cons loginRun_Cons st) simp
qed

lemma submissions_count:
  assumes ok: "\<And>pw e. ToBoolean (fst (onLogin pw e)) = ok pw"
  shows "loginInv s \<Longrightarrow> \<not> isLocked s \<Longrightarrow>
     isLocked (fst (loginRun onLogin (submissions pws) (s, e)))
       = (3 \<le> attempts s + int (length (filter (\<lambda>pw. \<not> ok pw) pws))) \<and>
     attempts (fst (loginRun onLogin (submissions pws) (s, e)))
       = min 3 (attempts s + int (length (filter (\<lambda>pw. \<not> ok pw) pws)))"
proof (induction pws arbitrary: s e)
  case Nil
  then show ?case by (simp add: submissions_def loginRun_def loginInv_def MAX_ATTEMPTS_def)
next
  case (Cons pw pws)
  from Cons.prems have c: "loginStep onLogin (Change pw) (s, e) = (s\<lparr>password := pw\<rparr>, e)"
    by (simp add: login_defs)
  obtain r e' where o: "onLogin pw e = (r, e')" and r: "ToBoolean r = ok pw"
    using ok[of pw e] by (cases "onLogin pw e") auto
  show ?case
  proof (cases "ok pw")
    case True
    let ?s1 = "s\<lparr>password := pw, loginError := False\<rparr>"
    from Cons.prems True o r have st: "loginStep onLogin Submit (s\<lparr>password := pw\<rparr>, e) = (?s1, e')"
      by (simp add: login_defs)
    from Cons.prems have "loginInv ?s1" "\<not> isLocked ?s1" by (simp_all add: loginInv_def)
    from Cons.IH[OF this, of e'] True show ?thesis
      by (simp only: submissions_Cons loginRun_Cons c st) simp
  next
    case False
    show ?thesis
    proof (cases "attempts s = 2")
      case a2: True
      let ?s1 = "s\<lparr>password := pw, attempts := 3, loginError := True, isLocked := True, lockoutTimer := 30\<rparr>"
      from Cons.prems False o r a2 have st: "loginStep onLogin Submit (s\<lparr>password := pw\<rparr>, e) = (?s1, e')"
        by (simp add: login_defs)
      have "loginInv ?s1" "isLocked ?s1" by (simp_all add: login_defs)
      from submissions_locked[OF this, of onLogin pws e'] False a2 show ?thesis
        by (simp only: submissions_Cons loginRun_Cons c st) simp
    next
      case a: False
      let ?s1 = "s\<lparr>password := pw, attempts := attempts s + 1, loginError := True\<rparr>"
      from Cons.prems False o r a have st: "loginStep onLogin Submit (s\<lparr>password := pw\<rparr>, e) = (?s1, e')"
        by (simp add: login_defs)
      from Cons.prems a have "loginInv ?s1" "\<not> isLocked ?s1" by (simp_all add: login_defs)
      from Cons.IH[OF this, of e'] False show ?thesis
        by (simp only: submissions_Cons loginRun_Cons c st) (simp add: add.assoc)
    qed
  qed
qed

text \<open>
  The form of the application never sees a failed check: whatever \<open>login\<close> returned,
  the promise that handleLoginSubmit hands back counts as true. A form whose
  \<^verbatim>\<open>onLogin\<close> always counts as true keeps its count at zero and is never locked.
\<close>

lemma handleLoginSubmit_truthy: "ToBoolean (fst (handleLoginSubmit env pw app))"
  by (simp add: handleLoginSubmit_def split: prod.splits)

lemma loginStep_truthy:
  assumes t: "\<And>pw x. ToBoolean (fst (onLogin pw x))"
  shows "attempts s = 0 \<and> \<not> isLocked s \<and> lockoutTimer s = 0 \<Longrightarrow>
     attempts (fst (loginStep onLogin ev (s, e))) = 0 \<and>
     \<not> isLocked (fst (loginStep onLogin ev (s, e))) \<and>
     lockoutTimer (fst (loginStep onLogin ev (s, e))) = 0"
proof (cases ev)
  case Submit
  obtain r e' where o: "onLogin (password s) e = (r, e')" by (cases "onLogin (password s) e")
  with t[of "password s" e] have "ToBoolean r" by simp
  with o Submit show "attempts s = 0 \<and> \<not> isLocked s \<and> lockoutTimer s = 0 \<Longrightarrow> ?thesis"
    by (simp add: handleSubmit_def lockoutEffect_def)
qed (simp_all add: lockoutEffect_def intervalTick_def)

lemma appStep_never_counts:
  "(\<forall>s. form = Some s \<longrightarrow> attempts s = 0 \<and> \<not> isLocked s \<and> lockoutTimer s = 0) \<Longrightarrow>
   fst (appStep env ev (form, app)) = Some s' \<Longrightarrow>
     attempts s' = 0 \<and> \<not> isLocked s' \<and> lockoutTimer s' = 0"
proof (cases ev)
  case (Nav view)
  assume "\<forall>s. form = Some s \<longrightarrow> attempts s = 0 \<and> \<not> isLocked s \<and> lockoutTimer s = 0"
    and "fst (appStep env ev (form, app)) = Some s'"
  with Nav show ?thesis
    by (auto simp: mountLogin_def initialLogin_def split: if_splits option.splits)
next
  case Logout
  assume "\<forall>s. form = Some s \<longrightarrow> attempts s = 0 \<and> \<not> isLocked s \<and> lockoutTimer s = 0"
    and "fst (appStep env ev (form, app)) = Some s'"
  with Logout show ?thesis
    by (auto simp: mountLogin_def initialLogin_def handleLogout_def split: if_splits option.splits)
next
  case (Form fev)
  assume i: "\<forall>s. form = Some s \<longrightarrow> attempts s = 0 \<and> \<not> isLocked s \<and> lockoutTimer s = 0"
    and r: "fst (appStep env ev (form, app)) = Some s'"
  from r Form obtain s where f: "form = Some s" by (cases form) auto
  obtain s1 app1 where st: "loginStep (handleLoginSubmit env) fev (s, app) = (s1, app1)"
    by (cases "loginStep (handleLoginSubmit env) fev (s, app)")
  from r Form f st have "s' = s1" by (simp add: mountLogin_def split: if_splits)
  moreover from i f have "attempts s = 0 \<and> \<not> isLocked s \<and> lockoutTimer s = 0" by simp
  from loginStep_truthy[of "handleLoginSubmit env" s fev app, OF handleLoginSubmit_truthy this] st
  have "attempts s1 = 0 \<and> \<not> isLocked s1 \<and> lockoutTimer s1 = 0" by simp
  ultimately show ?thesis by simp
qed

lemma appRun_never_counts:
  "(\<forall>s. form = Some s \<longrightarrow> attempts s = 0 \<and> \<not> isLocked s \<and> lockoutTimer s = 0) \<Longrightarrow>
   fst (appRun env evs (form, app)) = Some s' \<Longrightarrow>
     attempts s' = 0 \<and> \<not> isLocked s' \<and> lockoutTimer s' = 0"
proof (induction evs arbitrary: form app)
  case Nil
  then show ?case by (simp add: appRun_def)
next
  case (Cons ev evs)
  obtain f1 a1 where st: "appStep env ev (form, app) = (f1, a1)" by (cases "appStep env ev (form, app)")
  from appStep_never_counts[OF Cons.prems(1), of env ev app] st
  have "\<forall>s. f1 = Some s \<longrightarrow> attempts s = 0 \<and> \<not> isLocked s \<and> lockoutTimer s = 0" by simp
  from Cons.IH[OF this, of a1] Cons.prems(2) st show ?case by (simp add: appRun_def)
qed

text \<open>
  Handed the boolean of \<open>login\<close> itself, as \<^verbatim>\<open>LoginProps\<close> declares it, the form locks
  on the third wrong string, with the timer at 30.
\<close>

lemma boolean_onLogin_locks:
  "loginRun (\<lambda>pw a. (Boolean (fst (login None pw a)), snd (login None pw a)))
     [Change ''x'', Submit, Submit, Submit] (initialLogin, initialAuth None)
   = (\<lparr>password = ''x'', loginError = True, attempts = 3, isLocked = True, lockoutTimer = 30\<rparr>,
      initialAuth None)"
  by (simp add: loginRun_def handleSubmit_def lockoutEffect_def MAX_ATTEMPTS_def
      LOCKOUT_DURATION_def Let_def initialLogin_def initialAuth_def login_def ADMIN_PASSWORD_def)

text \<open>
  Claim C4 does not hold of the program. The claim: lockout triggers on the third
  consecutive failed check. The program: \<^verbatim>\<open>App\<close> hands the form the \<^verbatim>\<open>async\<close>
  function handleLoginSubmit, so for every string, right or wrong, what handleSubmit tests
  is a promise, which counts as true. In every run of the application, from its start with
  any session and under any configured secret, the form, whenever it is on the page, has
  its count of failed checks at zero and is not locked.
\<close>

theorem login_form_of_App_never_locks:
  "ToBoolean (fst (handleLoginSubmit env pw app))
   \<and> (fst (appRun env evs (None, initialApp session)) = Some s \<longrightarrow>
        attempts s = 0 \<and> \<not> isLocked s)"
  using appRun_never_counts[of None env evs "initialApp session" s]
  by (simp add: handleLoginSubmit_truthy)

text \<open>
  A run of the application with no session and the built-in secret: the CMS is chosen in
  the menu, which shows the form; the string "x", which \<open>login\<close> rejects, is typed and submitted three
  times. The form is still on the page, its count is zero, it is not locked and shows no
  error mark.
\<close>

theorem login_form_of_App_never_locks_witness:
  "\<not> fst (login None ''x'' (useAuth (initialApp None)))
   \<and> appRun None [Nav CMS, Form (Change ''x''), Form Submit, Form Submit, Form Submit]
        (None, initialApp None)
      = (Some \<lparr>password = ''x'', loginError = False, attempts = 0, isLocked = False, lockoutTimer = 0\<rparr>,
         \<lparr>currentView = LOGIN,
          useAuth = \<lparr>isAuthenticated = False, authIsLoading = False, cms_authenticated = None\<rparr>\<rparr>)
   \<and> \<not> isLocked (the (fst (appRun None
        [Nav CMS, Form (Change ''x''), Form Submit, Form Submit, Form Submit]
        (None, initialApp None))))"
proof -
  let ?s = "\<lparr>password = ''x'', loginError = False, attempts = 0, isLocked = False, lockoutTimer = 0\<rparr>"
  have h: "appRun None [Nav CMS, Form (Change ''x''), Form Submit, Form Submit, Form Submit]
        (None, initialApp None)
      = (Some ?s,
         \<lparr>currentView = LOGIN,
          useAuth = \<lparr>isAuthenticated = False, authIsLoading = False, cms_authenticated = None\<rparr>\<rparr>)"
    by (simp add: appRun_def mountLogin_def handleNav_def handleLoginSubmit_def initialApp_def
        checkAuth_def initialAuth_def login_def ADMIN_PASSWORD_def handleSubmit_def
        lockoutEffect_def initialLogin_def Let_def)
  have f: "\<not> fst (login None ''x'' (useAuth (initialApp None)))"
    by (simp add: login_def ADMIN_PASSWORD_def)
  from login_form_of_App_never_locks[of None "''x''" "initialApp None"
      "[Nav CMS, Form (Change ''x''), Form Submit, Form Submit, Form Submit]" None
      "the (fst (appRun None [Nav CMS, Form (Change ''x''), Form Submit, Form Submit, Form Submit]
        (None, initialApp None)))"] h
  have l: "\<not> isLocked (the (fst (appRun None
        [Nav CMS, Form (Change ''x''), Form Submit, Form Submit, Form Submit]
        (None, initialApp None))))"
    by simp
  from f h l show ?thesis by (intro conjI)
qed

section \<open>Lemmas on the repository\<close>

lemmas sdk_defs = getDocSettings_def getDocMeta_def getDocsContent_def setDocContent_def
  deleteDocContent_def setDocMeta_def setDocSettings_def sent_def

lemmas setter_defs = setItems_def setSettings_def setIsLoading_def setError_def

lemma map_of_update_same: "map_of (AList.update k v al) k = Some v"
  by (simp add: update_conv')

lemma local_only:
  "fst (saveItem False ok item w) \<and> fst (deleteItem False ok k w)
   \<and> fst (saveSettings False ok newSettings w) \<and> fst (saveMeta False ok meta w)
   \<and> db (snd (saveItem False ok item w)) = db w \<and> db (snd (deleteItem False ok k w)) = db w
   \<and> db (snd (saveSettings False ok newSettings w)) = db w \<and> snd (saveMeta False ok meta w) = w
   \<and> fst (ghSaveItem env False item gw) \<and> fst (ghDeleteItem env False k gw)"
  by (simp add: saveItem_def deleteItem_def saveSettings_def saveMeta_def ghSaveItem_def
      ghDeleteItem_def Let_def setter_defs setItemsCached_def)

lemma saveItemMetaOrder_keeps:
  "hook (snd (saveItemMetaOrder ok item w)) = hook w
   \<and> contentDocs (db (snd (saveItemMetaOrder ok item w))) = contentDocs (db w)
   \<and> (\<exists>rs. trace (snd (saveItemMetaOrder ok item w)) = trace w @ rs \<and>
          set rs \<subseteq> {Remote (GetDoc ''config'' ''meta''), Remote (SetDoc ''config'' ''meta'')})
   \<and> (\<not> ok (GetDoc ''config'' ''meta'') \<or> \<not> ok (SetDoc ''config'' ''meta'') \<longrightarrow>
        configMeta (db (snd (saveItemMetaOrder ok item w))) = configMeta (db w))"
  by (auto simp: saveItemMetaOrder_def sdk_defs Let_def split: option.splits)


lemma saveItem_configured:
  "saveItem True ok item w =
     (if ok (SetDoc ''content'' (itemId item))
      then (True, snd (saveItemMetaOrder ok item
              (sent (SetDoc ''content'' (itemId item))
                 ((setItems (saveItemUpdater item) w)
                    \<lparr>db := (db w)\<lparr>contentDocs := AList.update (itemId item) item (contentDocs (db w))\<rparr>\<rparr>))))
      else (False, sent (SetDoc ''content'' (itemId item)) (setItems (saveItemUpdater item) w)))"
  by (simp add: saveItem_def setDocContent_def Let_def setItems_def)

lemma saveItem_written:
  "(ok (SetDoc ''content'' (itemId item)) \<longrightarrow>
      fst (saveItem True ok item w)
      \<and> map_of (contentDocs (db (snd (saveItem True ok item w)))) (itemId item) = Some item
      \<and> items (hook (snd (saveItem True ok item w))) = saveItemUpdater item (items (hook w))
      \<and> (\<exists>rs. trace (snd (saveItem True ok item w))
                 = trace w @ [SetItems, Remote (SetDoc ''content'' (itemId item))] @ rs
               \<and> set rs \<subseteq> {Remote (GetDoc ''config'' ''meta''), Remote (SetDoc ''config'' ''meta'')})
      \<and> (\<not> ok (GetDoc ''config'' ''meta'') \<or> \<not> ok (SetDoc ''config'' ''meta'') \<longrightarrow>
           configMeta (db (snd (saveItem True ok item w))) = configMeta (db w)))"
proof
  assume a: "ok (SetDoc ''content'' (itemId item))"
  let ?w2 = "sent (SetDoc ''content'' (itemId item))
                 ((setItems (saveItemUpdater item) w)
                    \<lparr>db := (db w)\<lparr>contentDocs := AList.update (itemId item) item (contentDocs (db w))\<rparr>\<rparr>)"
  have r: "saveItem True ok item w = (True, snd (saveItemMetaOrder ok item ?w2))"
    using a by (simp add: saveItem_configured)
  note k = saveItemMetaOrder_keeps[of ok item ?w2]
  have h: "hook ?w2 = (hook w)\<lparr>items := saveItemUpdater item (items (hook w))\<rparr>"
    and c: "contentDocs (db ?w2) = AList.update (itemId item) item (contentDocs (db w))"
    and t: "trace ?w2 = trace w @ [SetItems, Remote (SetDoc ''content'' (itemId item))]"
    and m: "configMeta (db ?w2) = configMeta (db w)"
    by (simp_all add: sent_def setItems_def)
  from k obtain rs where rs: "trace (snd (saveItemMetaOrder ok item ?w2)) = trace ?w2 @ rs"
    "set rs \<subseteq> {Remote (GetDoc ''config'' ''meta''), Remote (SetDoc ''config'' ''meta'')}"
    by blast
  have 1: "fst (saveItem True ok item w)" by (simp add: r)
  have 2: "map_of (contentDocs (db (snd (saveItem True ok item w)))) (itemId item) = Some item"
    using k by (simp add: r c map_of_update_same)
  have 3: "items (hook (snd (saveItem True ok item w))) = saveItemUpdater item (items (hook w))"
    using k by (simp add: r h)
  have 4: "\<exists>rs. trace (snd (saveItem True ok item w))
                 = trace w @ [SetItems, Remote (SetDoc ''content'' (itemId item))] @ rs
               \<and> set rs \<subseteq> {Remote (GetDoc ''config'' ''meta''), Remote (SetDoc ''config'' ''meta'')}"
    using rs by (intro exI[of _ rs]) (simp add: r t)
  have 5: "\<not> ok (GetDoc ''config'' ''meta'') \<or> \<not> ok (SetDoc ''config'' ''meta'') \<longrightarrow>
           configMeta (db (snd (saveItem True ok item w))) = configMeta (db w)"
    using k by (simp add: r m)
  from 1 2 3 4 5 show "fst (saveItem True ok item w)
      \<and> map_of (contentDocs (db (snd (saveItem True ok item w)))) (itemId item) = Some item
      \<and> items (hook (snd (saveItem True ok item w))) = saveItemUpdater item (items (hook w))
      \<and> (\<exists>rs. trace (snd (saveItem True ok item w))
                 = trace w @ [SetItems, Remote (SetDoc ''content'' (itemId item))] @ rs
               \<and> set rs \<subseteq> {Remote (GetDoc ''config'' ''meta''), Remote (SetDoc ''config'' ''meta'')})
      \<and> (\<not> ok (GetDoc ''config'' ''meta'') \<or> \<not> ok (SetDoc ''config'' ''meta'') \<longrightarrow>
           configMeta (db (snd (saveItem True ok item w))) = configMeta (db w))"
    by (intro conjI)
qed

lemma putFile_self: "file \<in> set (putFile file files)"
  by (auto simp: putFile_def)

lemma putFile_other: "g \<in> set files \<Longrightarrow> ghPath g \<noteq> ghPath file \<Longrightarrow> g \<in> set (putFile file files)"
  by (auto simp: putFile_def)

lemma generateFilename_not_meta: "generateFilename slugOfTitle item \<noteq> ''meta.json''"
  by (simp add: generateFilename_def Let_def)

lemma itemPath_not_metaPath: "itemPath env item \<noteq> metaPath env"
  by (simp add: itemPath_def Let_def metaPath_def generateFilename_not_meta)

lemma getFileContent_world:
  "snd (getFileContent env path w) = sent (GET path) w"
  by (simp add: getFileContent_def Let_def split: option.splits)

lemma getFileContent_result:
  "db w' = db w \<Longrightarrow> fst (getFileContent env path w') = fst (getFileContent env path w)"
  by (simp add: getFileContent_def Let_def split: option.splits)

lemma saveFileToGitHub_result:
  "fst (saveFileToGitHub env path content sha w) = accepts env (PUT path sha)"
  by (simp add: saveFileToGitHub_def Let_def)

lemma saveFileToGitHub_hook:
  "hook (snd (saveFileToGitHub env path content sha w)) = hook w"
  by (simp add: saveFileToGitHub_def Let_def sent_def)

lemma saveFileToGitHub_db:
  "db (snd (saveFileToGitHub env path content sha w)) =
     (if accepts env (PUT path sha)
      then putFile \<lparr>ghName = fileName path, ghPath = path, ghSha = revision env path content,
                    ghBlob = content\<rparr> (db w)
      else db w)"
  by (simp add: saveFileToGitHub_def Let_def sent_def)

lemma saveFileToGitHub_keeps_other:
  "g \<in> set (db w) \<Longrightarrow> ghPath g \<noteq> path \<Longrightarrow>
     g \<in> set (db (snd (saveFileToGitHub env path content sha w)))"
  by (simp add: saveFileToGitHub_db putFile_other)

lemma ghSaveItem_github:
  "fst (ghSaveItem env True item w)
     = accepts env (PUT (itemPath env item)
         (map_option snd (fst (getFileContent env (itemPath env item) w))))
   \<and> hook (snd (ghSaveItem env True item w)) = (hook w)\<lparr>items := saveItemUpdater item (items (hook w))\<rparr>
   \<and> (fst (ghSaveItem env True item w) \<longrightarrow>
        (\<exists>f\<in>set (db (snd (ghSaveItem env True item w))).
            ghPath f = itemPath env item \<and> ghBlob f = ItemBlob item))"
proof -
  let ?w1 = "setItemsCached (saveItemUpdater item) w"
  let ?path = "itemPath env item"
  let ?w2 = "sent (GET ?path) ?w1"
  have d1: "db ?w1 = db w" by (simp add: setItemsCached_def Let_def setItems_def)
  have h1: "hook ?w1 = (hook w)\<lparr>items := saveItemUpdater item (items (hook w))\<rparr>"
    by (simp add: setItemsCached_def Let_def setItems_def)
  let ?existing = "fst (getFileContent env ?path w)"
  have e: "getFileContent env ?path ?w1 = (?existing, ?w2)"
    using getFileContent_result[OF d1, of env ?path] getFileContent_world[of env ?path ?w1]
    by (simp add: prod_eq_iff)
  let ?sha = "map_option snd ?existing"
  let ?file = "\<lparr>ghName = fileName ?path, ghPath = ?path,
                 ghSha = revision env ?path (ItemBlob item), ghBlob = ItemBlob item\<rparr>"
  show ?thesis
  proof (cases "accepts env (PUT ?path ?sha)")
    case False
    have s0: "saveFileToGitHub env ?path (ItemBlob item) ?sha ?w2 = (False, sent (PUT ?path ?sha) ?w2)"
      using False by (simp add: saveFileToGitHub_def Let_def)
    have r0: "ghSaveItem env True item w = (False, sent (PUT ?path ?sha) ?w2)"
      unfolding ghSaveItem_def Let_def by (simp only: if_True e prod.case s0 if_False)
    show ?thesis unfolding r0 using False h1 by (simp add: sent_def)
  next
    case True
    let ?w3 = "(sent (PUT ?path ?sha) ?w2)\<lparr>db := putFile ?file (db (sent (PUT ?path ?sha) ?w2))\<rparr>"
    have s: "saveFileToGitHub env ?path (ItemBlob item) ?sha ?w2 = (True, ?w3)"
      using True by (simp add: saveFileToGitHub_def Let_def)
    have f3: "?file \<in> set (db ?w3)"
      by (simp add: putFile_self)
    have h3: "hook ?w3 = (hook w)\<lparr>items := saveItemUpdater item (items (hook w))\<rparr>"
      by (simp add: sent_def h1)
    let ?w4 = "sent (GET (metaPath env)) ?w3"
    have f4: "?file \<in> set (db ?w4)" using f3 by (simp add: sent_def)
    have h4: "hook ?w4 = (hook w)\<lparr>items := saveItemUpdater item (items (hook w))\<rparr>"
      using h3 by (simp add: sent_def)
    have ne: "ghPath ?file \<noteq> metaPath env" using itemPath_not_metaPath[of env item] by simp
    obtain metaData where m: "getFileContent env (metaPath env) ?w3 = (metaData, ?w4)"
      using getFileContent_world[of env "metaPath env" ?w3]
      by (cases "getFileContent env (metaPath env) ?w3") simp
    have r: "ghSaveItem env True item w =
        (if itemId item \<notin> set (orderOfMeta metaData)
         then (True, snd (saveFileToGitHub env (metaPath env)
                  (MetaBlob \<lparr>contentOrder = itemId item # filter (\<lambda>k. k \<noteq> itemId item) (orderOfMeta metaData)\<rparr>)
                  (map_option snd metaData) ?w4))
         else (True, ?w4))"
      unfolding ghSaveItem_def Let_def by (simp only: if_True e prod.case s m)
    show ?thesis
    proof (cases "itemId item \<notin> set (orderOfMeta metaData)")
      case False
      with r have r4: "ghSaveItem env True item w = (True, ?w4)" by simp
      have "\<exists>f\<in>set (db ?w4). ghPath f = ?path \<and> ghBlob f = ItemBlob item"
        by (rule bexI[OF _ f4]) simp
      then show ?thesis unfolding r4 using True h4 by simp
    next
      case n: True
      let ?w5 = "snd (saveFileToGitHub env (metaPath env)
                  (MetaBlob \<lparr>contentOrder = itemId item # filter (\<lambda>k. k \<noteq> itemId item) (orderOfMeta metaData)\<rparr>)
                  (map_option snd metaData) ?w4)"
      from saveFileToGitHub_keeps_other[OF f4 ne] have f5: "?file \<in> set (db ?w5)" .
      have h5: "hook ?w5 = (hook w)\<lparr>items := saveItemUpdater item (items (hook w))\<rparr>"
        using h4 by (simp add: saveFileToGitHub_hook)
      from r n have r5: "ghSaveItem env True item w = (True, ?w5)" by simp
      have "\<exists>f\<in>set (db ?w5). ghPath f = ?path \<and> ghBlob f = ItemBlob item"
        by (rule bexI[OF _ f5]) simp
      then show ?thesis unfolding r5 using True h5 by simp
    qed
  qed
qed

lemma map_of_delete_same: "map_of (AList.delete k al) k = None"
  by (simp add: delete_conv')




lemma deleteItem_configured:
  "deleteItem True ok k w =
     (case deleteItemRemote ok k (setItems (deleteItemUpdater k) w) of
        (Inl e, w2) \<Rightarrow> (False, w2) | (Inr u, w2) \<Rightarrow> (True, w2))"
  by (simp add: deleteItem_def Let_def)

lemma deleteItemRemote_cases:
  "deleteItemRemote ok k w =
     (if \<not> ok (DeleteDoc ''content'' k)
      then (Inl FirebaseError, sent (DeleteDoc ''content'' k) w)
      else if \<not> ok (GetDoc ''config'' ''meta'')
      then (Inl FirebaseError,
            sent (GetDoc ''config'' ''meta'') (sent (DeleteDoc ''content'' k)
              (w\<lparr>db := (db w)\<lparr>contentDocs := AList.delete k (contentDocs (db w))\<rparr>\<rparr>)))
      else (case configMeta (db w) of
              None \<Rightarrow> (Inr (),
                  sent (GetDoc ''config'' ''meta'') (sent (DeleteDoc ''content'' k)
                    (w\<lparr>db := (db w)\<lparr>contentDocs := AList.delete k (contentDocs (db w))\<rparr>\<rparr>)))
            | Some m \<Rightarrow>
                if ok (SetDoc ''config'' ''meta'')
                then (Inr (),
                  sent (SetDoc ''config'' ''meta'') (sent (GetDoc ''config'' ''meta'')
                    (sent (DeleteDoc ''content'' k)
                      (w\<lparr>db := (db w)\<lparr>contentDocs := AList.delete k (contentDocs (db w)),
                               configMeta := Some \<lparr>contentOrder = filter (\<lambda>i. i \<noteq> k) (contentOrder m)\<rparr>\<rparr>\<rparr>))))
                else (Inl FirebaseError,
                  sent (SetDoc ''config'' ''meta'') (sent (GetDoc ''config'' ''meta'')
                    (sent (DeleteDoc ''content'' k)
                      (w\<lparr>db := (db w)\<lparr>contentDocs := AList.delete k (contentDocs (db w))\<rparr>\<rparr>))))))"
  by (simp add: deleteItemRemote_def deleteDocContent_def getDocMeta_def setDocMeta_def sent_def
      split: option.splits)


lemma deleteItem_hook:
  "hook (snd (deleteItem c ok k w)) = (hook w)\<lparr>items := deleteItemUpdater k (items (hook w))\<rparr>"
proof (cases c)
  case True
  then have ct: "c = True" by simp
  show ?thesis unfolding ct
    by (simp add: deleteItem_configured deleteItemRemote_cases sent_def setItems_def
        split: option.splits)
next
  case False
  then show ?thesis by (simp add: deleteItem_def Let_def setItems_def)
qed

lemma deleteItem_result:
  "fst (deleteItem True ok k w)
     = (ok (DeleteDoc ''content'' k) \<and> ok (GetDoc ''config'' ''meta'') \<and>
        (configMeta (db w) \<noteq> None \<longrightarrow> ok (SetDoc ''config'' ''meta'')))
   \<and> (fst (deleteItem True ok k w) \<longrightarrow>
        map_of (contentDocs (db (snd (deleteItem True ok k w)))) k = None)
   \<and> (\<not> ok (DeleteDoc ''content'' k) \<longrightarrow> db (snd (deleteItem True ok k w)) = db w)"
  by (simp add: deleteItem_configured deleteItemRemote_cases sent_def setItems_def
      map_of_delete_same split: option.splits)


lemma deleteItem_ledger:
  "configMeta (db (snd (deleteItem c ok k w))) =
     (if c \<and> ok (DeleteDoc ''content'' k) \<and> ok (GetDoc ''config'' ''meta'')
          \<and> ok (SetDoc ''config'' ''meta'')
      then map_option (\<lambda>m. \<lparr>contentOrder = filter (\<lambda>i. i \<noteq> k) (contentOrder m)\<rparr>) (configMeta (db w))
      else configMeta (db w))"
proof (cases c)
  case True
  then have ct: "c = True" by simp
  show ?thesis unfolding ct
    by (simp add: deleteItem_configured deleteItemRemote_cases sent_def setItems_def
        split: option.splits)
next
  case False
  then show ?thesis by (simp add: deleteItem_def Let_def setItems_def)
qed


lemma fileName_metaPath: "fileName (metaPath env) = ''meta.json''"
  by (simp add: fileName_def metaPath_def)

lemma contentFile_not_meta:
  "ghName f = fileName (ghPath f) \<Longrightarrow> isContentFile f \<Longrightarrow> ghPath f \<noteq> metaPath env"
  using fileName_metaPath[of env] by (auto simp: isContentFile_def)

lemma find_filter_other:
  "\<not> P x \<Longrightarrow> find P (filter (\<lambda>y. y \<noteq> x) xs) = find P xs"
  by (induction xs) auto

lemma find_filter_path:
  "p \<noteq> q \<Longrightarrow> find (\<lambda>f. ghPath f = q) (filter (\<lambda>f. ghPath f \<noteq> p) files) = find (\<lambda>f. ghPath f = q) files"
  by (induction files) auto

lemma ghLedger_delete_other:
  "p \<noteq> metaPath env \<Longrightarrow> ghLedger env (filter (\<lambda>f. ghPath f \<noteq> p) files) = ghLedger env files"
  by (simp add: ghLedger_def find_filter_path)

lemma find_putFile:
  "find (\<lambda>f. ghPath f = ghPath file) (putFile file files) = Some file"
proof -
  have a: "find (\<lambda>f. ghPath f = ghPath file) (map (\<lambda>f. if ghPath f = ghPath file then file else f) files) = Some file"
    if "\<exists>f\<in>set files. ghPath f = ghPath file"
    using that by (induction files) auto
  have b: "find (\<lambda>f. ghPath f = ghPath file) (files @ [file]) = Some file"
    if "\<not> (\<exists>f\<in>set files. ghPath f = ghPath file)"
    using that by (induction files) auto
  show ?thesis using a b by (simp add: putFile_def)
qed

lemma ghLedger_putMeta:
  "ghLedger env (putFile \<lparr>ghName = n, ghPath = metaPath env, ghSha = s,
       ghBlob = MetaBlob \<lparr>contentOrder = order\<rparr>\<rparr> files) = Some order"
  using find_putFile[of "\<lparr>ghName = n, ghPath = metaPath env, ghSha = s,
       ghBlob = MetaBlob \<lparr>contentOrder = order\<rparr>\<rparr>" files]
  by (simp add: ghLedger_def)

lemma getFileContent_meta:
  "fst (getFileContent env (metaPath env) w) = Some (MetaBlob m, sha)
     \<Longrightarrow> ghLedger env (db w) = Some (contentOrder m)"
  by (auto simp: getFileContent_def ghLedger_def Let_def split: option.splits if_splits)

text \<open>The update of meta.json after a file was deleted.\<close>

lemma ghDelete_meta_update:
  assumes m: "getFileContent env (metaPath env) w2 = (metaData, w3)"
  shows "hook (snd (case metaData of
                     Some (MetaBlob m, sha) \<Rightarrow>
                       (success, snd (saveFileToGitHub env (metaPath env)
                          (MetaBlob \<lparr>contentOrder = filter (\<lambda>i. i \<noteq> k) (contentOrder m)\<rparr>)
                          (Some sha) w3))
                   | other \<Rightarrow> (success, w3))) = hook w2
    \<and> (let l' = ghLedger env (db (snd (case metaData of
                     Some (MetaBlob m, sha) \<Rightarrow>
                       (success, snd (saveFileToGitHub env (metaPath env)
                          (MetaBlob \<lparr>contentOrder = filter (\<lambda>i. i \<noteq> k) (contentOrder m)\<rparr>)
                          (Some sha) w3))
                   | other \<Rightarrow> (success, w3))))
        in l' = ghLedger env (db w2) \<or> l' = map_option (filter (\<lambda>i. i \<noteq> k)) (ghLedger env (db w2)))"
proof -
  from m have w3: "w3 = sent (GET (metaPath env)) w2"
    using getFileContent_world[of env "metaPath env" w2] by simp
  then have d3: "db w3 = db w2" and h3: "hook w3 = hook w2" by (simp_all add: sent_def)
  show ?thesis
  proof (cases metaData)
    case None
    then show ?thesis by (simp add: d3 h3)
  next
    case (Some bs)
    obtain b sha where bs: "bs = (b, sha)" by (cases bs)
    show ?thesis
    proof (cases b)
      case (MetaBlob mm)
      from m Some bs MetaBlob have "fst (getFileContent env (metaPath env) w2) = Some (MetaBlob mm, sha)"
        by simp
      from getFileContent_meta[OF this] have l: "ghLedger env (db w2) = Some (contentOrder mm)" .
      show ?thesis unfolding Some bs MetaBlob
        by (simp add: saveFileToGitHub_hook saveFileToGitHub_db h3 d3 l ghLedger_putMeta)
    qed (simp_all add: Some bs d3 h3)
  qed
qed

lemma deleteFileFromGitHub_cases:
  "deleteFileFromGitHub env path sha w =
     (if accepts env (DELETE path sha)
      then (True, (sent (DELETE path sha) w)\<lparr>db := filter (\<lambda>f. ghPath f \<noteq> path) (db w)\<rparr>)
      else (False, sent (DELETE path sha) w))"
  by (simp add: deleteFileFromGitHub_def Let_def sent_def)

lemma ghDeleteLoop_effect:
  "\<forall>f\<in>set files. ghPath f \<noteq> metaPath env \<Longrightarrow>
     hook (snd (ghDeleteLoop env k files w)) = hook w
     \<and> (ghLedger env (db (snd (ghDeleteLoop env k files w))) = ghLedger env (db w)
        \<or> ghLedger env (db (snd (ghDeleteLoop env k files w)))
            = map_option (filter (\<lambda>i. i \<noteq> k)) (ghLedger env (db w)))"
proof (induction files arbitrary: w)
  case Nil
  then show ?case by simp
next
  case (Cons fl rest)
  let ?p = "ghPath fl"
  let ?w1 = "sent (GET ?p) w"
  obtain data where g: "getFileContent env ?p w = (data, ?w1)"
    using getFileContent_world[of env ?p w] by (cases "getFileContent env ?p w") simp
  have d1: "db ?w1 = db w" and h1: "hook ?w1 = hook w" by (simp_all add: sent_def)
  from Cons.prems have np: "?p \<noteq> metaPath env" and rest: "\<forall>f\<in>set rest. ghPath f \<noteq> metaPath env"
    by simp_all
  show ?case
  proof (cases "shaIfHoldsId data k")
    case None
    then have r: "ghDeleteLoop env k (fl # rest) w = ghDeleteLoop env k rest ?w1"
      by (simp add: g)
    from Cons.IH[OF rest, of ?w1] show ?thesis unfolding r d1 h1 .
  next
    case (Some dataSha)
    show ?thesis
    proof (cases "accepts env (DELETE ?p dataSha)")
      case False
      then have r: "ghDeleteLoop env k (fl # rest) w = (False, sent (DELETE ?p dataSha) ?w1)"
        by (simp add: g Some deleteFileFromGitHub_cases)
      show ?thesis unfolding r by (simp add: sent_def)
    next
      case True
      let ?w2 = "(sent (DELETE ?p dataSha) ?w1)\<lparr>db := filter (\<lambda>f. ghPath f \<noteq> ?p) (db ?w1)\<rparr>"
      obtain metaData w3 where m: "getFileContent env (metaPath env) ?w2 = (metaData, w3)"
        by (cases "getFileContent env (metaPath env) ?w2")
      have r: "ghDeleteLoop env k (fl # rest) w =
          (case metaData of
             Some (MetaBlob m, sha) \<Rightarrow>
               (True, snd (saveFileToGitHub env (metaPath env)
                  (MetaBlob \<lparr>contentOrder = filter (\<lambda>i. i \<noteq> k) (contentOrder m)\<rparr>)
                  (Some sha) w3))
           | other \<Rightarrow> (True, w3))"
        using True by (simp add: g Some deleteFileFromGitHub_cases m)
      have h2: "hook ?w2 = hook w" by (simp add: sent_def)
      have l2: "ghLedger env (db ?w2) = ghLedger env (db w)"
        using np by (simp add: sent_def ghLedger_delete_other)
      from ghDelete_meta_update[OF m, of True k] show ?thesis
        unfolding r h2 l2 by (simp add: Let_def)
    qed
  qed
qed

lemma getFileContent_hook: "hook (snd (getFileContent env path w)) = hook w"
  by (simp add: getFileContent_world sent_def)

lemma ghDeleteLoop_hook: "hook (snd (ghDeleteLoop env k files w)) = hook w"
proof (induction files arbitrary: w)
  case Nil
  then show ?case by simp
next
  case (Cons fl rest)
  let ?p = "ghPath fl"
  let ?w1 = "sent (GET ?p) w"
  obtain data where g: "getFileContent env ?p w = (data, ?w1)"
    using getFileContent_world[of env ?p w] by (cases "getFileContent env ?p w") simp
  have h1: "hook ?w1 = hook w" by (simp add: sent_def)
  show ?case
  proof (cases "shaIfHoldsId data k")
    case None
    then have r: "ghDeleteLoop env k (fl # rest) w = ghDeleteLoop env k rest ?w1"
      by (simp add: g)
    from Cons.IH[of ?w1] show ?thesis unfolding r h1 .
  next
    case (Some dataSha)
    show ?thesis
    proof (cases "accepts env (DELETE ?p dataSha)")
      case False
      then have r: "ghDeleteLoop env k (fl # rest) w = (False, sent (DELETE ?p dataSha) ?w1)"
        by (simp add: g Some deleteFileFromGitHub_cases)
      show ?thesis unfolding r by (simp add: sent_def)
    next
      case True
      let ?w2 = "(sent (DELETE ?p dataSha) ?w1)\<lparr>db := filter (\<lambda>f. ghPath f \<noteq> ?p) (db ?w1)\<rparr>"
      obtain metaData w3 where m: "getFileContent env (metaPath env) ?w2 = (metaData, w3)"
        by (cases "getFileContent env (metaPath env) ?w2")
      have r: "ghDeleteLoop env k (fl # rest) w =
          (case metaData of
             Some (MetaBlob m, sha) \<Rightarrow>
               (True, snd (saveFileToGitHub env (metaPath env)
                  (MetaBlob \<lparr>contentOrder = filter (\<lambda>i. i \<noteq> k) (contentOrder m)\<rparr>)
                  (Some sha) w3))
           | other \<Rightarrow> (True, w3))"
        using True by (simp add: g Some deleteFileFromGitHub_cases m)
      have h2: "hook ?w2 = hook w" by (simp add: sent_def)
      from ghDelete_meta_update[OF m, of True k] show ?thesis
        unfolding r h2 by (simp add: Let_def)
    qed
  qed
qed

lemma ghDeleteItem_effect:
  "items (hook (snd (ghDeleteItem env c k w))) = filter (\<lambda>i. itemId i \<noteq> k) (items (hook w))
   \<and> ((\<forall>f\<in>set (db w). ghName f = fileName (ghPath f)) \<longrightarrow>
        ghLedger env (db (snd (ghDeleteItem env c k w))) = ghLedger env (db w)
        \<or> ghLedger env (db (snd (ghDeleteItem env c k w)))
            = map_option (filter (\<lambda>i. i \<noteq> k)) (ghLedger env (db w)))"
proof (cases c)
  case False
  then show ?thesis
    by (simp add: ghDeleteItem_def Let_def setItemsCached_def setItems_def deleteItemUpdater_def)
next
  case True
  then have ct: "c = True" by simp
  let ?w1 = "setItemsCached (deleteItemUpdater k) w"
  let ?w2 = "sent (LIST (CONTENT_PATH env)) ?w1"
  let ?files = "if accepts env (LIST (CONTENT_PATH env)) then db w else []"
  have h2: "hook ?w2 = (hook w)\<lparr>items := filter (\<lambda>i. itemId i \<noteq> k) (items (hook w))\<rparr>"
    and d2: "db ?w2 = db w"
    by (simp_all add: sent_def setItemsCached_def Let_def setItems_def deleteItemUpdater_def)
  have r: "ghDeleteItem env True k w = ghDeleteLoop env k (filter isContentFile ?files) ?w2"
    by (simp add: ghDeleteItem_def Let_def listFiles_def setItemsCached_def setItems_def sent_def)
  have 1: "items (hook (snd (ghDeleteItem env c k w))) = filter (\<lambda>i. itemId i \<noteq> k) (items (hook w))"
    unfolding ct r ghDeleteLoop_hook h2 by simp
  have 2: "ghLedger env (db (snd (ghDeleteItem env c k w))) = ghLedger env (db w)
        \<or> ghLedger env (db (snd (ghDeleteItem env c k w)))
            = map_option (filter (\<lambda>i. i \<noteq> k)) (ghLedger env (db w))"
    if n: "\<forall>f\<in>set (db w). ghName f = fileName (ghPath f)"
  proof -
    have "\<forall>f\<in>set (filter isContentFile ?files). ghPath f \<noteq> metaPath env"
      using n contentFile_not_meta[of _ env] by auto
    from ghDeleteLoop_effect[OF this, of k ?w2] show ?thesis unfolding ct r d2 by simp
  qed
  from 1 2 show ?thesis by blast
qed

lemma find_distinct_path:
  "distinct (map ghPath files) \<Longrightarrow> fl \<in> set files \<Longrightarrow> find (\<lambda>f. ghPath f = ghPath fl) files = Some fl"
  by (induction files) (auto simp: image_iff)

lemma ghDelete_meta_update_accepted:
  assumes all: "\<forall>r. accepts env r"
  shows "ghLedger env (db (snd (case fst (getFileContent env (metaPath env) wb) of
                     Some (MetaBlob m, sha) \<Rightarrow>
                       (success, snd (saveFileToGitHub env (metaPath env)
                          (MetaBlob \<lparr>contentOrder = filter (\<lambda>i. i \<noteq> k) (contentOrder m)\<rparr>)
                          (Some sha) (sent (GET (metaPath env)) wb)))
                   | other \<Rightarrow> (success, sent (GET (metaPath env)) wb))))
         = map_option (filter (\<lambda>i. i \<noteq> k)) (ghLedger env (db wb))"
proof (cases "find (\<lambda>f. ghPath f = metaPath env) (db wb)")
  case None
  then show ?thesis using all
    by (simp add: getFileContent_def Let_def ghLedger_def sent_def)
next
  case (Some f)
  show ?thesis
  proof (cases "ghBlob f")
    case (MetaBlob m)
    with Some all show ?thesis
      by (simp add: getFileContent_def Let_def ghLedger_def saveFileToGitHub_db sent_def
          find_putFile[of "\<lparr>ghName = fileName (metaPath env), ghPath = metaPath env,
             ghSha = revision env (metaPath env) (MetaBlob \<lparr>contentOrder = filter (\<lambda>i. i \<noteq> k) (contentOrder m)\<rparr>),
             ghBlob = MetaBlob \<lparr>contentOrder = filter (\<lambda>i. i \<noteq> k) (contentOrder m)\<rparr>\<rparr>" "db wb", simplified])
  qed (use Some all in \<open>simp_all add: getFileContent_def Let_def ghLedger_def sent_def\<close>)
qed

lemma ghDeleteLoop_removes:
  assumes all: "\<forall>r. accepts env r"
  shows "distinct (map ghPath (db w)) \<Longrightarrow> set files \<subseteq> set (db w) \<Longrightarrow>
     \<forall>f\<in>set files. ghPath f \<noteq> metaPath env \<Longrightarrow>
     \<exists>f\<in>set files. \<exists>i. ghBlob f = ItemBlob i \<and> itemId i = k \<Longrightarrow>
     fst (ghDeleteLoop env k files w)
     \<and> ghLedger env (db (snd (ghDeleteLoop env k files w)))
         = map_option (filter (\<lambda>i. i \<noteq> k)) (ghLedger env (db w))"
proof (induction files arbitrary: w)
  case Nil
  then show ?case by simp
next
  case (Cons fl rest)
  let ?p = "ghPath fl"
  let ?w1 = "sent (GET ?p) w"
  from Cons.prems have fl: "fl \<in> set (db w)" and np: "?p \<noteq> metaPath env" by auto
  from find_distinct_path[OF Cons.prems(1) fl]
  have f: "find (\<lambda>f. ghPath f = ?p) (db w) = Some fl" .
  let ?data = "if ghBlob fl = NoJson then None else Some (ghBlob fl, ghSha fl)"
  have g: "getFileContent env ?p w = (?data, ?w1)"
    using all by (simp add: getFileContent_def Let_def f)
  have d1: "db ?w1 = db w" by (simp add: sent_def)
  show ?case
  proof (cases "\<exists>i. ghBlob fl = ItemBlob i \<and> itemId i = k")
    case True
    then obtain i where i: "ghBlob fl = ItemBlob i" "itemId i = k" by blast
    let ?w2 = "(sent (DELETE ?p (ghSha fl)) ?w1)\<lparr>db := filter (\<lambda>f. ghPath f \<noteq> ?p) (db ?w1)\<rparr>"
    obtain metaData where m: "getFileContent env (metaPath env) ?w2
                = (metaData, sent (GET (metaPath env)) ?w2)"
      using getFileContent_world[of env "metaPath env" ?w2]
      by (cases "getFileContent env (metaPath env) ?w2") simp
    then have fm: "fst (getFileContent env (metaPath env) ?w2) = metaData" by simp
    have s: "shaIfHoldsId ?data k = Some (ghSha fl)" using i by simp
    have dl: "deleteFileFromGitHub env ?p (ghSha fl) ?w1 = (True, ?w2)"
      using all by (simp add: deleteFileFromGitHub_cases)
    have r: "ghDeleteLoop env k (fl # rest) w =
          (case metaData of
             Some (MetaBlob m, sha) \<Rightarrow>
               (True, snd (saveFileToGitHub env (metaPath env)
                  (MetaBlob \<lparr>contentOrder = filter (\<lambda>i. i \<noteq> k) (contentOrder m)\<rparr>)
                  (Some sha) (sent (GET (metaPath env)) ?w2)))
           | other \<Rightarrow> (True, sent (GET (metaPath env)) ?w2))"
      by (simp only: ghDeleteLoop.simps g prod.case s option.case dl if_True m)
    have l2: "ghLedger env (db ?w2) = ghLedger env (db w)"
      using np by (simp add: sent_def ghLedger_delete_other)
    have t: "fst (ghDeleteLoop env k (fl # rest) w)"
      unfolding r by (simp split: option.splits prod.splits gh_blob.splits)
    from ghDelete_meta_update_accepted[OF all, where success=True and k=k and wb="?w2"] t show ?thesis
      unfolding r l2 fm by simp
  next
    case False
    then have n: "shaIfHoldsId ?data k = None"
      by (cases "ghBlob fl") auto
    have r: "ghDeleteLoop env k (fl # rest) w = ghDeleteLoop env k rest ?w1"
      by (simp only: ghDeleteLoop.simps g prod.case n option.case)
    from Cons.prems False have ex: "\<exists>f\<in>set rest. \<exists>i. ghBlob f = ItemBlob i \<and> itemId i = k"
      by auto
    from Cons.prems have "distinct (map ghPath (db ?w1))" "set rest \<subseteq> set (db ?w1)"
      "\<forall>f\<in>set rest. ghPath f \<noteq> metaPath env" by (simp_all add: d1)
    from Cons.IH[OF this ex] show ?thesis unfolding r d1 .
  qed
qed

lemma ghDeleteItem_removes:
  assumes all: "\<forall>r. accepts env r"
    and fo: "folder (db w)"
    and ex: "\<exists>f\<in>set (db w). isContentFile f \<and> (\<exists>i. ghBlob f = ItemBlob i \<and> itemId i = k)"
  shows "fst (ghDeleteItem env True k w)
     \<and> ghLedger env (db (snd (ghDeleteItem env True k w)))
         = map_option (filter (\<lambda>i. i \<noteq> k)) (ghLedger env (db w))"
proof -
  let ?w1 = "setItemsCached (deleteItemUpdater k) w"
  let ?w2 = "sent (LIST (CONTENT_PATH env)) ?w1"
  have d2: "db ?w2 = db w"
    by (simp add: sent_def setItemsCached_def Let_def setItems_def)
  have r: "ghDeleteItem env True k w = ghDeleteLoop env k (filter isContentFile (db w)) ?w2"
    using all by (simp add: ghDeleteItem_def Let_def listFiles_def setItemsCached_def setItems_def sent_def)
  from fo have 1: "distinct (map ghPath (db ?w2))" by (simp add: folder_def d2)
  have 2: "set (filter isContentFile (db w)) \<subseteq> set (db ?w2)" by (auto simp: d2)
  have 3: "\<forall>f\<in>set (filter isContentFile (db w)). ghPath f \<noteq> metaPath env"
    using fo contentFile_not_meta[of _ env] by (auto simp: folder_def)
  from ex have 4: "\<exists>f\<in>set (filter isContentFile (db w)). \<exists>i. ghBlob f = ItemBlob i \<and> itemId i = k"
    by auto
  from ghDeleteLoop_removes[OF all 1 2 3 4] show ?thesis unfolding r d2 .
qed

lemma staticItems_Nil: "staticItems site [] = []"
  by (simp add: staticItems_def)

lemma staticItems_Cons:
  "staticItems site (f # files) =
     (case contentFile site f of Fetched item \<Rightarrow> [item] | other \<Rightarrow> []) @ staticItems site files"
  by (simp add: staticItems_def)

lemma fold_loadStaticFile:
  "fold (loadStaticFile site) files (acc, w) =
     (acc @ staticItems site files,
      w\<lparr>trace := trace w @ map (\<lambda>f. Fetch (''/content/'' @ f)) files\<rparr>)"
proof (induction files arbitrary: acc w)
  case Nil
  then show ?case by (simp add: staticItems_Nil)
next
  case (Cons f files)
  have st: "loadStaticFile site f (acc, w) =
      (acc @ (case contentFile site f of Fetched item \<Rightarrow> [item] | other \<Rightarrow> []),
       w\<lparr>trace := trace w @ [Fetch (''/content/'' @ f)]\<rparr>)"
    by (cases "contentFile site f") (simp_all add: loadStaticFile_def fetched_def)
  show ?case
    by (simp only: fold_simps st Cons.IH staticItems_Cons) simp
qed

lemma loadStaticContent_eq:
  "loadStaticContent site w =
     (Inr (), w\<lparr>hook := (hook w)\<lparr>items := (if staticItems site contentFiles \<noteq> []
                                            then staticItems site contentFiles else DEFAULT_CONTENT),
                                  isLoading := False\<rparr>,
               trace := trace w @ map (\<lambda>f. Fetch (''/content/'' @ f)) contentFiles @ [SetItems]\<rparr>)"
  by (simp add: loadStaticContent_def fold_loadStaticFile Let_def setIsLoading_def setItems_def)

lemma fetchFromFirebase_fails:
  "\<not> backendAnswers ok \<Longrightarrow>
     \<exists>e w1 rs. fetchFromFirebase ok w = (Inl e, w1) \<and> trace w1 = trace w @ rs
        \<and> (\<forall>x\<in>set rs. \<not> consultsFallback x) \<and> cache w1 = cache w"
  by (auto simp: backendAnswers_def fetchFromFirebase_def getDocSettings_def getDocsContent_def
      getDocMeta_def sent_def setSettings_def Let_def split: option.splits)

lemma fetchFromFirebase_answers:
  "backendAnswers ok \<Longrightarrow>
     \<exists>w1 rs. fetchFromFirebase ok w = (Inr (backendContent (db w)), w1) \<and> trace w1 = trace w @ rs
        \<and> (\<forall>x\<in>set rs. \<not> consultsFallback x) \<and> cache w1 = cache w \<and> db w1 = db w
        \<and> items (hook w1) = items (hook w) \<and> loadError (hook w1) = loadError (hook w)
        \<and> isLoading (hook w1) = isLoading (hook w)
        \<and> (configSettings (db w) = None \<longrightarrow> settings (hook w1) = settings (hook w))
        \<and> (\<forall>s. configSettings (db w) = Some s \<longrightarrow> settings (hook w1) = s)"
  by (auto simp: backendAnswers_def fetchFromFirebase_def getDocSettings_def getDocsContent_def
      getDocMeta_def sent_def setSettings_def Let_def backendContent_def split: option.splits)


lemma fetchFallback_cached:
  "cms_content (cache w) = Some (Json cached) \<Longrightarrow> cms_settings (cache w) \<noteq> Some Malformed \<Longrightarrow>
     \<exists>w1 rs. fetchFallback site w = (Inr (), w1) \<and> items (hook w1) = cached
        \<and> \<not> isLoading (hook w1) \<and> loadError (hook w1) = loadError (hook w)
        \<and> trace w1 = trace w @ rs \<and> (\<forall>x\<in>set rs. \<not> isFetch x)"
proof -
  assume c: "cms_content (cache w) = Some (Json cached)" and s: "cms_settings (cache w) \<noteq> Some Malformed"
  show ?thesis
  proof (cases "cms_settings (cache w)")
    case None
    with c show ?thesis
      by (simp add: fetchFallback_def Let_def getItem_def setItems_def setIsLoading_def)
  next
    case (Some st)
    with c s show ?thesis
      by (cases st)
         (simp_all add: fetchFallback_def Let_def getItem_def setItems_def setIsLoading_def
            setSettings_def)
  qed
qed

lemma fetchStatic_ok:
  "settingsFile site = NotOk \<or> (\<exists>s. settingsFile site = Fetched s) \<Longrightarrow>
     \<exists>w1 post. fetchStatic site w = (Inr (), w1)
        \<and> items (hook w1) = (if staticItems site contentFiles \<noteq> []
                              then staticItems site contentFiles else DEFAULT_CONTENT)
        \<and> \<not> isLoading (hook w1) \<and> loadError (hook w1) = loadError (hook w)
        \<and> (settingsFile site = NotOk \<longrightarrow> settings (hook w1) = settings (hook w))
        \<and> (\<forall>s. settingsFile site = Fetched s \<longrightarrow> settings (hook w1) = s)
        \<and> trace w1 = trace w @ post \<and> (\<forall>x\<in>set post. \<forall>key. x \<noteq> GetItem key)"
  by (auto simp: fetchStatic_def Let_def loadStaticContent_eq fetched_def setSettings_def)

lemma fetchFallback_static:
  "\<not> truthy (cms_content (cache w)) \<Longrightarrow>
   settingsFile site = NotOk \<or> (\<exists>s. settingsFile site = Fetched s) \<Longrightarrow>
     \<exists>w1 post. fetchFallback site w = (Inr (), w1)
        \<and> items (hook w1) = (if staticItems site contentFiles \<noteq> []
                              then staticItems site contentFiles else DEFAULT_CONTENT)
        \<and> \<not> isLoading (hook w1) \<and> loadError (hook w1) = loadError (hook w)
        \<and> (settingsFile site = NotOk \<longrightarrow> settings (hook w1) = settings (hook w))
        \<and> (\<forall>s. settingsFile site = Fetched s \<longrightarrow> settings (hook w1) = s)
        \<and> trace w1 = trace w @ [GetItem ''cms_content'', GetItem ''cms_settings''] @ post
        \<and> (\<forall>x\<in>set post. \<forall>key. x \<noteq> GetItem key)"
proof -
  assume t: "\<not> truthy (cms_content (cache w))"
    and s: "settingsFile site = NotOk \<or> (\<exists>s. settingsFile site = Fetched s)"
  let ?w1 = "getItem ''cms_settings'' (getItem ''cms_content'' w)"
  from t have r: "fetchFallback site w = fetchStatic site ?w1"
    by (simp add: fetchFallback_def Let_def)
  have hk: "hook ?w1 = hook w"
    and tk: "trace ?w1 = trace w @ [GetItem ''cms_content'', GetItem ''cms_settings'']"
    by (simp_all add: getItem_def)
  from fetchStatic_ok[OF s, of ?w1] show ?thesis unfolding r hk tk by simp
qed

lemma fetchFallback_error:
  "cms_content (cache w) = Some Malformed
   \<or> (\<exists>c. cms_content (cache w) = Some (Json c) \<and> cms_settings (cache w) = Some Malformed)
   \<or> (\<not> truthy (cms_content (cache w)) \<and> (settingsFile site = FetchFailed \<or> settingsFile site = BadJson))
   \<Longrightarrow> \<exists>e w1. fetchFallback site w = (Inl e, w1)"
  by (auto simp: fetchFallback_def Let_def fetchStatic_def)

lemma fetchContent_error:
  "fetchTry c ok site (setError None (setIsLoading True w)) = (Inl e, w1) \<Longrightarrow>
     items (hook (fetchContent c ok site w)) = DEFAULT_CONTENT
     \<and> loadError (hook (fetchContent c ok site w)) = Some ''Failed to load content''
     \<and> \<not> isLoading (hook (fetchContent c ok site w))
     \<and> trace (fetchContent c ok site w) = trace w1 @ [SetItems]"
  by (simp add: fetchContent_def setIsLoading_def setItems_def setError_def)

lemma fetchContent_done:
  "fetchTry c ok site (setError None (setIsLoading True w)) = (Inr u, w1) \<Longrightarrow>
     fetchContent c ok site w = w1"
  by (simp add: fetchContent_def)

lemma sortByContentOrder_Nil_iff: "sortByContentOrder order xs = [] \<longleftrightarrow> xs = []"
proof -
  have "mset (sortByContentOrder order xs) = mset xs"
    by (simp add: sortByContentOrder_ledgerOrder mset_ledgerOrder)
  then show ?thesis by (metis mset_zero_iff)
qed

lemma backendContent_Nil_iff: "backendContent d = [] \<longleftrightarrow> contentDocs d = []"
  by (simp add: backendContent_def sortByContentOrder_Nil_iff)


lemma start_facts:
  "hook (setError None (setIsLoading True w)) = (hook w)\<lparr>isLoading := True, loadError := None\<rparr>"
  "db (setError None (setIsLoading True w)) = db w"
  "cache (setError None (setIsLoading True w)) = cache w"
  "trace (setError None (setIsLoading True w)) = trace w"
  by (simp_all add: setError_def setIsLoading_def)

lemma fetchTry_backend_fails:
  "c \<Longrightarrow> \<not> backendAnswers ok \<Longrightarrow>
     \<exists>e w1 rs. fetchTry c ok site (setError None (setIsLoading True w)) = (Inl e, w1)
        \<and> trace w1 = trace w @ rs \<and> (\<forall>x\<in>set rs. \<not> consultsFallback x)"
proof -
  assume c: c and n: "\<not> backendAnswers ok"
  from fetchFromFirebase_fails[OF n, of "setError None (setIsLoading True w)"]
  obtain e w1 rs where "fetchFromFirebase ok (setError None (setIsLoading True w)) = (Inl e, w1)"
    "trace w1 = trace w @ rs" "\<forall>x\<in>set rs. \<not> consultsFallback x"
    unfolding start_facts by blast
  with c show ?thesis by (auto simp: fetchTry_def)
qed

lemma fetchTry_backend_content:
  "c \<Longrightarrow> backendAnswers ok \<Longrightarrow> contentDocs (db w) \<noteq> [] \<Longrightarrow>
     \<exists>w1 rs. fetchTry c ok site (setError None (setIsLoading True w)) = (Inr (), w1)
        \<and> items (hook w1) = backendContent (db w) \<and> loadError (hook w1) = None
        \<and> \<not> isLoading (hook w1)
        \<and> trace w1 = trace w @ rs \<and> (\<forall>x\<in>set rs. \<not> consultsFallback x)"
proof -
  assume c: c and a: "backendAnswers ok" and ne: "contentDocs (db w) \<noteq> []"
  from fetchFromFirebase_answers[OF a, of "setError None (setIsLoading True w)"]
  obtain w1 rs where f: "fetchFromFirebase ok (setError None (setIsLoading True w))
       = (Inr (backendContent (db w)), w1)"
    and t: "trace w1 = trace w @ rs" "\<forall>x\<in>set rs. \<not> consultsFallback x"
    and l: "loadError (hook w1) = None"
    unfolding start_facts by auto
  from ne have "backendContent (db w) \<noteq> []" by (simp add: backendContent_Nil_iff)
  with c f t l show ?thesis
    by (auto simp: fetchTry_def setIsLoading_def setItems_def)
qed

lemma fetchTry_reaches:
  "reachesFallback c ok w \<Longrightarrow>
     \<exists>w1 pre. fetchTry c ok site (setError None (setIsLoading True w)) = fetchFallback site w1
        \<and> cache w1 = cache w \<and> trace w1 = trace w @ pre \<and> (\<forall>x\<in>set pre. \<not> consultsFallback x)
        \<and> loadError (hook w1) = None
        \<and> (\<not> c \<or> configSettings (db w) = None \<longrightarrow> settings (hook w1) = settings (hook w))"
proof (cases c)
  case False
  then show ?thesis
    by (intro exI[of _ "setError None (setIsLoading True w)"] exI[of _ "[]"])
       (simp add: fetchTry_def start_facts)
next
  case True
  assume "reachesFallback c ok w"
  with True have a: "backendAnswers ok" and e: "contentDocs (db w) = []"
    by (simp_all add: reachesFallback_def)
  from fetchFromFirebase_answers[OF a, of "setError None (setIsLoading True w)"]
  obtain w1 rs where f: "fetchFromFirebase ok (setError None (setIsLoading True w))
       = (Inr (backendContent (db w)), w1)"
    and t: "trace w1 = trace w @ rs" "\<forall>x\<in>set rs. \<not> consultsFallback x"
    and l: "loadError (hook w1) = None" and ca: "cache w1 = cache w"
    and s: "configSettings (db w) = None \<longrightarrow> settings (hook w1) = settings (hook w)"
    unfolding start_facts by auto
  from e have "backendContent (db w) = []" by (simp add: backendContent_Nil_iff)
  with True f have "fetchTry c ok site (setError None (setIsLoading True w)) = fetchFallback site w1"
    by (simp add: fetchTry_def)
  with t l ca s True show ?thesis by auto
qed

section \<open>fetchContent\<close>

lemma fetchContent_backend_error:
  assumes "c" "\<not> backendAnswers ok"
  shows "items (hook (fetchContent c ok site w)) = DEFAULT_CONTENT
    \<and> loadError (hook (fetchContent c ok site w)) = Some ''Failed to load content''
    \<and> (\<exists>rs. trace (fetchContent c ok site w) = trace w @ rs \<and> (\<forall>x\<in>set rs. \<not> consultsFallback x))"
proof -
  from fetchTry_backend_fails[OF assms, of site w] obtain e w1 rs where
    f: "fetchTry c ok site (setError None (setIsLoading True w)) = (Inl e, w1)"
    and t: "trace w1 = trace w @ rs" "\<forall>x\<in>set rs. \<not> consultsFallback x" by blast
  from fetchContent_error[OF f] t show ?thesis
    by (auto intro!: exI[of _ "rs @ [SetItems]"])
qed

lemma fetchContent_backend_content:
  assumes "c" "backendAnswers ok" "contentDocs (db w) \<noteq> []"
  shows "items (hook (fetchContent c ok site w)) = backendContent (db w)
    \<and> loadError (hook (fetchContent c ok site w)) = None
    \<and> (\<exists>rs. trace (fetchContent c ok site w) = trace w @ rs \<and> (\<forall>x\<in>set rs. \<not> consultsFallback x))"
proof -
  from fetchTry_backend_content[OF assms, of site] obtain w1 rs where
    f: "fetchTry c ok site (setError None (setIsLoading True w)) = (Inr (), w1)"
    and i: "items (hook w1) = backendContent (db w)" "loadError (hook w1) = None"
    and t: "trace w1 = trace w @ rs" "\<forall>x\<in>set rs. \<not> consultsFallback x" by blast
  from fetchContent_done[OF f] i t show ?thesis by auto
qed

lemma consultsFallback_isFetch: "\<not> consultsFallback x \<Longrightarrow> \<not> isFetch x"
  by (cases x) simp_all

lemma fetchContent_cache:
  assumes r: "reachesFallback c ok w"
    and ca: "cms_content (cache w) = Some (Json cached)" "cms_settings (cache w) \<noteq> Some Malformed"
  shows "items (hook (fetchContent c ok site w)) = cached
    \<and> loadError (hook (fetchContent c ok site w)) = None
    \<and> (\<exists>rs. trace (fetchContent c ok site w) = trace w @ rs \<and> (\<forall>x\<in>set rs. \<not> isFetch x))"
proof -
  from fetchTry_reaches[OF r, of site] obtain w1 pre where
    f: "fetchTry c ok site (setError None (setIsLoading True w)) = fetchFallback site w1"
    and c1: "cache w1 = cache w" and t: "trace w1 = trace w @ pre" "\<forall>x\<in>set pre. \<not> consultsFallback x"
    and l: "loadError (hook w1) = None" by blast
  from ca c1 have "cms_content (cache w1) = Some (Json cached)" "cms_settings (cache w1) \<noteq> Some Malformed"
    by simp_all
  from fetchFallback_cached[OF this, of site] obtain w2 rs where
    g: "fetchFallback site w1 = (Inr (), w2)" and i: "items (hook w2) = cached"
    "loadError (hook w2) = loadError (hook w1)"
    and t2: "trace w2 = trace w1 @ rs" "\<forall>x\<in>set rs. \<not> isFetch x" by blast
  from f g have "fetchTry c ok site (setError None (setIsLoading True w)) = (Inr (), w2)" by simp
  from fetchContent_done[OF this] i l t t2 consultsFallback_isFetch show ?thesis
    by (auto intro!: exI[of _ "pre @ rs"])
qed

lemma fetchContent_static:
  assumes r: "reachesFallback c ok w"
    and ca: "\<not> truthy (cms_content (cache w))"
    and s: "settingsFile site = NotOk \<or> (\<exists>s. settingsFile site = Fetched s)"
  shows "items (hook (fetchContent c ok site w))
      = (if staticItems site contentFiles \<noteq> [] then staticItems site contentFiles else DEFAULT_CONTENT)
    \<and> loadError (hook (fetchContent c ok site w)) = None
    \<and> (\<exists>pre post. trace (fetchContent c ok site w)
           = trace w @ pre @ [GetItem ''cms_content'', GetItem ''cms_settings''] @ post
         \<and> (\<forall>x\<in>set pre. \<not> consultsFallback x) \<and> (\<forall>x\<in>set post. \<forall>key. x \<noteq> GetItem key))
    \<and> ((\<not> c \<or> configSettings (db w) = None) \<and> settingsFile site = NotOk \<longrightarrow>
          settings (hook (fetchContent c ok site w)) = settings (hook w))"
proof -
  from fetchTry_reaches[OF r, of site] obtain w1 pre where
    f: "fetchTry c ok site (setError None (setIsLoading True w)) = fetchFallback site w1"
    and c1: "cache w1 = cache w" and t: "trace w1 = trace w @ pre" "\<forall>x\<in>set pre. \<not> consultsFallback x"
    and l: "loadError (hook w1) = None"
    and se: "\<not> c \<or> configSettings (db w) = None \<longrightarrow> settings (hook w1) = settings (hook w)"
    by (elim exE conjE) (rule that)
  from ca c1 have "\<not> truthy (cms_content (cache w1))" by simp
  from fetchFallback_static[OF this s] obtain w2 post where
    g: "fetchFallback site w1 = (Inr (), w2)"
    and i: "items (hook w2) = (if staticItems site contentFiles \<noteq> []
                              then staticItems site contentFiles else DEFAULT_CONTENT)"
    "loadError (hook w2) = loadError (hook w1)"
    and s2: "settingsFile site = NotOk \<longrightarrow> settings (hook w2) = settings (hook w1)"
    and t2: "trace w2 = trace w1 @ [GetItem ''cms_content'', GetItem ''cms_settings''] @ post"
    "\<forall>x\<in>set post. \<forall>key. x \<noteq> GetItem key" by blast
  from f g have "fetchTry c ok site (setError None (setIsLoading True w)) = (Inr (), w2)" by simp
  from fetchContent_done[OF this] have e: "fetchContent c ok site w = w2" .
  have tr: "\<exists>pre post. trace w2
           = trace w @ pre @ [GetItem ''cms_content'', GetItem ''cms_settings''] @ post
         \<and> (\<forall>x\<in>set pre. \<not> consultsFallback x) \<and> (\<forall>x\<in>set post. \<forall>key. x \<noteq> GetItem key)"
    using t t2 by (intro exI[of _ pre] exI[of _ post]) simp
  from i l se s2 tr show ?thesis unfolding e by simp
qed

lemma fetchContent_fallback_error:
  assumes r: "reachesFallback c ok w"
    and b: "cms_content (cache w) = Some Malformed
       \<or> (\<exists>x. cms_content (cache w) = Some (Json x) \<and> cms_settings (cache w) = Some Malformed)
       \<or> (\<not> truthy (cms_content (cache w))
           \<and> (settingsFile site = FetchFailed \<or> settingsFile site = BadJson))"
  shows "items (hook (fetchContent c ok site w)) = DEFAULT_CONTENT
    \<and> loadError (hook (fetchContent c ok site w)) = Some ''Failed to load content''"
proof -
  from fetchTry_reaches[OF r, of site] obtain w1 where
    f: "fetchTry c ok site (setError None (setIsLoading True w)) = fetchFallback site w1"
    and c1: "cache w1 = cache w" by blast
  from b c1 have "cms_content (cache w1) = Some Malformed
       \<or> (\<exists>x. cms_content (cache w1) = Some (Json x) \<and> cms_settings (cache w1) = Some Malformed)
       \<or> (\<not> truthy (cms_content (cache w1))
           \<and> (settingsFile site = FetchFailed \<or> settingsFile site = BadJson))" by simp
  from fetchFallback_error[OF this] obtain e w2 where "fetchFallback site w1 = (Inl e, w2)" by blast
  with f have "fetchTry c ok site (setError None (setIsLoading True w)) = (Inl e, w2)" by simp
  from fetchContent_error[OF this] show ?thesis by simp
qed

text \<open>
  The claim C5 as it is written fails on fetchContent: when a read of the backend raises
  an error, the \<^verbatim>\<open>catch\<close> branch puts the default content in place at once. Here the
  local storage holds a cached list, every request to the backend fails, and the items
  are the default content, not the cached list.
\<close>

theorem fetchContent_error_skips_cache_counterexample:
  "cms_content (cache exampleWorld) = Some (Json [quote3])
   \<and> items (hook (fetchContent True unreachable noSite exampleWorld)) = DEFAULT_CONTENT
   \<and> items (hook (fetchContent True unreachable noSite exampleWorld)) \<noteq> [quote3]"
  by (simp add: fetchContent_def fetchTry_def fetchFromFirebase_def getDocSettings_def
      unreachable_def sent_def setError_def setIsLoading_def setItems_def exampleWorld_def
      DEFAULT_CONTENT_def quote3_def)

text \<open>
  Claim C5, amended. For every run of fetchContent:
  \<^item> when a backend is configured and one of its three reads raises an error, the items
    are the default content and the error message is set, and neither the local storage
    nor a static file is consulted;
  \<^item> when the backend answers and holds items, these are the items, sorted by the
    ledger, and no fallback source is consulted;
  \<^item> when no backend is configured, or the backend answers and holds no item, the
    fallback part is reached, and there: (1) a cached list in the local storage gives the
    items, and no static file is fetched; (2) with no cached list (absent or the empty
    string), the static files are fetched, after the local storage was read, and the items
    they give are the items; (3) when they give none, the items are the default content;
    and the settings stay as they were when no source has settings;
  \<^item> when the fallback part itself raises an error (a cached text that is not JSON, a
    failing fetch of the static settings), the items are the default content and the error
    message is set.
\<close>

theorem fetchContent_fallback_chain:
  "(c \<and> \<not> backendAnswers ok \<longrightarrow>
      items (hook (fetchContent c ok site w)) = DEFAULT_CONTENT
      \<and> loadError (hook (fetchContent c ok site w)) = Some ''Failed to load content''
      \<and> (\<exists>rs. trace (fetchContent c ok site w) = trace w @ rs
               \<and> (\<forall>x\<in>set rs. \<not> consultsFallback x)))
   \<and> (c \<and> backendAnswers ok \<and> contentDocs (db w) \<noteq> [] \<longrightarrow>
      items (hook (fetchContent c ok site w)) = backendContent (db w)
      \<and> loadError (hook (fetchContent c ok site w)) = None
      \<and> (\<exists>rs. trace (fetchContent c ok site w) = trace w @ rs
               \<and> (\<forall>x\<in>set rs. \<not> consultsFallback x)))
   \<and> (reachesFallback c ok w \<and> cms_content (cache w) = Some (Json cached)
        \<and> cms_settings (cache w) \<noteq> Some Malformed \<longrightarrow>
      items (hook (fetchContent c ok site w)) = cached
      \<and> loadError (hook (fetchContent c ok site w)) = None
      \<and> (\<exists>rs. trace (fetchContent c ok site w) = trace w @ rs \<and> (\<forall>x\<in>set rs. \<not> isFetch x)))
   \<and> (reachesFallback c ok w \<and> \<not> truthy (cms_content (cache w))
        \<and> (settingsFile site = NotOk \<or> (\<exists>s. settingsFile site = Fetched s)) \<longrightarrow>
      items (hook (fetchContent c ok site w))
        = (if staticItems site contentFiles \<noteq> [] then staticItems site contentFiles
           else DEFAULT_CONTENT)
      \<and> loadError (hook (fetchContent c ok site w)) = None
      \<and> (\<exists>pre post. trace (fetchContent c ok site w)
             = trace w @ pre @ [GetItem ''cms_content'', GetItem ''cms_settings''] @ post
           \<and> (\<forall>x\<in>set pre. \<not> consultsFallback x) \<and> (\<forall>x\<in>set post. \<forall>key. x \<noteq> GetItem key))
      \<and> ((\<not> c \<or> configSettings (db w) = None) \<and> settingsFile site = NotOk \<longrightarrow>
            settings (hook (fetchContent c ok site w)) = settings (hook w)))
   \<and> (reachesFallback c ok w
        \<and> (cms_content (cache w) = Some Malformed
            \<or> (\<exists>x. cms_content (cache w) = Some (Json x) \<and> cms_settings (cache w) = Some Malformed)
            \<or> (\<not> truthy (cms_content (cache w))
                \<and> (settingsFile site = FetchFailed \<or> settingsFile site = BadJson))) \<longrightarrow>
      items (hook (fetchContent c ok site w)) = DEFAULT_CONTENT
      \<and> loadError (hook (fetchContent c ok site w)) = Some ''Failed to load content'')"
proof (intro conjI)
  show "c \<and> \<not> backendAnswers ok \<longrightarrow>
      items (hook (fetchContent c ok site w)) = DEFAULT_CONTENT
      \<and> loadError (hook (fetchContent c ok site w)) = Some ''Failed to load content''
      \<and> (\<exists>rs. trace (fetchContent c ok site w) = trace w @ rs
               \<and> (\<forall>x\<in>set rs. \<not> consultsFallback x))"
    using fetchContent_backend_error[of c ok site w] by blast
  show "c \<and> backendAnswers ok \<and> contentDocs (db w) \<noteq> [] \<longrightarrow>
      items (hook (fetchContent c ok site w)) = backendContent (db w)
      \<and> loadError (hook (fetchContent c ok site w)) = None
      \<and> (\<exists>rs. trace (fetchContent c ok site w) = trace w @ rs
               \<and> (\<forall>x\<in>set rs. \<not> consultsFallback x))"
    using fetchContent_backend_content[of c ok w site] by blast
  show "reachesFallback c ok w \<and> cms_content (cache w) = Some (Json cached)
        \<and> cms_settings (cache w) \<noteq> Some Malformed \<longrightarrow>
      items (hook (fetchContent c ok site w)) = cached
      \<and> loadError (hook (fetchContent c ok site w)) = None
      \<and> (\<exists>rs. trace (fetchContent c ok site w) = trace w @ rs \<and> (\<forall>x\<in>set rs. \<not> isFetch x))"
    using fetchContent_cache[of c ok w cached site] by blast
  show "reachesFallback c ok w \<and> \<not> truthy (cms_content (cache w))
        \<and> (settingsFile site = NotOk \<or> (\<exists>s. settingsFile site = Fetched s)) \<longrightarrow>
      items (hook (fetchContent c ok site w))
        = (if staticItems site contentFiles \<noteq> [] then staticItems site contentFiles
           else DEFAULT_CONTENT)
      \<and> loadError (hook (fetchContent c ok site w)) = None
      \<and> (\<exists>pre post. trace (fetchContent c ok site w)
             = trace w @ pre @ [GetItem ''cms_content'', GetItem ''cms_settings''] @ post
           \<and> (\<forall>x\<in>set pre. \<not> consultsFallback x) \<and> (\<forall>x\<in>set post. \<forall>key. x \<noteq> GetItem key))
      \<and> ((\<not> c \<or> configSettings (db w) = None) \<and> settingsFile site = NotOk \<longrightarrow>
            settings (hook (fetchContent c ok site w)) = settings (hook w))"
    using fetchContent_static[of c ok w site] by blast
  show "reachesFallback c ok w
        \<and> (cms_content (cache w) = Some Malformed
            \<or> (\<exists>x. cms_content (cache w) = Some (Json x) \<and> cms_settings (cache w) = Some Malformed)
            \<or> (\<not> truthy (cms_content (cache w))
                \<and> (settingsFile site = FetchFailed \<or> settingsFile site = BadJson))) \<longrightarrow>
      items (hook (fetchContent c ok site w)) = DEFAULT_CONTENT
      \<and> loadError (hook (fetchContent c ok site w)) = Some ''Failed to load content''"
    using fetchContent_fallback_error[of c ok w site] by blast
qed

text \<open>
  Without a backend the cached quote is shown; without cache and static files, the
  default content and settings; with a backend that fails, the default content and the
  error message; with a backend that works, its document; with a cached text that is not
  JSON, the default content.
\<close>

theorem fetchContent_fallback_chain_witness:
  "items (hook (fetchContent False unreachable noSite exampleWorld)) = [quote3]
   \<and> items (hook (fetchContent False unreachable noSite
        (exampleWorld\<lparr>cache := \<lparr>cms_content = None, cms_settings = None\<rparr>\<rparr>))) = DEFAULT_CONTENT
   \<and> settings (hook (fetchContent False unreachable noSite
        (exampleWorld\<lparr>cache := \<lparr>cms_content = None, cms_settings = None\<rparr>\<rparr>))) = DEFAULT_SETTINGS
   \<and> items (hook (fetchContent True unreachable noSite exampleWorld)) = DEFAULT_CONTENT
   \<and> loadError (hook (fetchContent True unreachable noSite exampleWorld))
       = Some ''Failed to load content''
   \<and> items (hook (fetchContent True reachable noSite exampleWorld)) = [quote3\<lparr>itemId := ''1''\<rparr>]
   \<and> items (hook (fetchContent False unreachable noSite
        (exampleWorld\<lparr>cache := \<lparr>cms_content = Some Malformed, cms_settings = None\<rparr>\<rparr>))) = DEFAULT_CONTENT"
proof -
  let ?w = "exampleWorld\<lparr>cache := \<lparr>cms_content = None, cms_settings = None\<rparr>\<rparr>"
  let ?m = "exampleWorld\<lparr>cache := \<lparr>cms_content = Some Malformed, cms_settings = None\<rparr>\<rparr>"
  note a = fetchContent_fallback_chain[of False unreachable noSite exampleWorld "[quote3]"]
  note b = fetchContent_fallback_chain[of False unreachable noSite ?w "[]"]
  note c = fetchContent_fallback_chain[of True unreachable noSite exampleWorld "[]"]
  note d = fetchContent_fallback_chain[of True reachable noSite exampleWorld "[]"]
  note e = fetchContent_fallback_chain[of False unreachable noSite ?m "[]"]
  have ha: "reachesFallback False unreachable exampleWorld
        \<and> cms_content (cache exampleWorld) = Some (Json [quote3])
        \<and> cms_settings (cache exampleWorld) \<noteq> Some Malformed"
    by (simp add: reachesFallback_def exampleWorld_def)
  have hb: "reachesFallback False unreachable ?w \<and> \<not> truthy (cms_content (cache ?w))
        \<and> (settingsFile noSite = NotOk \<or> (\<exists>s. settingsFile noSite = Fetched s))"
    by (simp add: reachesFallback_def noSite_def)
  have hb': "(\<not> False \<or> configSettings (db ?w) = None) \<and> settingsFile noSite = NotOk"
    by (simp add: noSite_def)
  have hc: "True \<and> \<not> backendAnswers unreachable"
    by (simp add: backendAnswers_def unreachable_def)
  have hd: "True \<and> backendAnswers reachable \<and> contentDocs (db exampleWorld) \<noteq> []"
    by (simp add: backendAnswers_def reachable_def exampleWorld_def exampleDb_def)
  have he: "reachesFallback False unreachable ?m
        \<and> (cms_content (cache ?m) = Some Malformed
            \<or> (\<exists>x. cms_content (cache ?m) = Some (Json x) \<and> cms_settings (cache ?m) = Some Malformed)
            \<or> (\<not> truthy (cms_content (cache ?m))
                \<and> (settingsFile noSite = FetchFailed \<or> settingsFile noSite = BadJson)))"
    by (simp add: reachesFallback_def)
  have st: "staticItems noSite contentFiles = []"
    by (simp add: staticItems_def noSite_def)
  have bc: "backendContent (db exampleWorld) = [quote3\<lparr>itemId := ''1''\<rparr>]"
    by (simp add: backendContent_def exampleWorld_def exampleDb_def sortByContentOrder_def
        arraySort_def)
  from a ha have 1: "items (hook (fetchContent False unreachable noSite exampleWorld)) = [quote3]"
    by blast
  from b hb have 2: "items (hook (fetchContent False unreachable noSite ?w))
        = (if staticItems noSite contentFiles \<noteq> [] then staticItems noSite contentFiles
           else DEFAULT_CONTENT)"
    and 3: "(\<not> False \<or> configSettings (db ?w) = None) \<and> settingsFile noSite = NotOk \<longrightarrow>
            settings (hook (fetchContent False unreachable noSite ?w)) = settings (hook ?w)"
    by blast+
  from c hc have 4: "items (hook (fetchContent True unreachable noSite exampleWorld)) = DEFAULT_CONTENT
      \<and> loadError (hook (fetchContent True unreachable noSite exampleWorld)) = Some ''Failed to load content''"
    by blast
  from 3 hb' have 5: "settings (hook (fetchContent False unreachable noSite ?w)) = settings (hook ?w)"
    by blast
  from d hd have 6: "items (hook (fetchContent True reachable noSite exampleWorld))
      = backendContent (db exampleWorld)"
    by blast
  from e he have 7: "items (hook (fetchContent False unreachable noSite ?m)) = DEFAULT_CONTENT"
    by blast
  from 1 2 4 5 6 7 st bc show ?thesis by (simp add: exampleWorld_def)
qed

section \<open>saveItem, deleteItem, saveSettings, saveMeta\<close>

text \<open>
  Claim C9. Without a configured backend, saveItem, deleteItem, saveSettings and saveMeta
  return true for every item, id, settings and ledger, whatever a backend would have
  answered, and send nothing: the database is as before. The same holds of saveItem and
  deleteItem of the GitHub variant.
\<close>

theorem local_only_mode_never_fails:
  "fst (saveItem False ok item w) \<and> fst (deleteItem False ok k w)
   \<and> fst (saveSettings False ok newSettings w) \<and> fst (saveMeta False ok meta w)
   \<and> db (snd (saveItem False ok item w)) = db w \<and> db (snd (deleteItem False ok k w)) = db w
   \<and> db (snd (saveSettings False ok newSettings w)) = db w \<and> snd (saveMeta False ok meta w) = w
   \<and> fst (ghSaveItem env False item gw) \<and> fst (ghDeleteItem env False k gw)"
  by (rule local_only)

theorem local_only_mode_never_fails_witness:
  "fst (saveItem False unreachable quote3 exampleWorld)
   \<and> fst (deleteItem False unreachable ''1'' exampleWorld)
   \<and> fst (saveSettings False unreachable DEFAULT_SETTINGS exampleWorld)
   \<and> fst (saveMeta False unreachable \<lparr>contentOrder = [''3'']\<rparr> exampleWorld)"
  using local_only_mode_never_fails[of unreachable quote3 exampleWorld "''1''" DEFAULT_SETTINGS
      "\<lparr>contentOrder = [''3'']\<rparr>" exampleEnv exampleRepo]
  by simp




text \<open>
  Claim C7. For every call of saveItem in which the write of the item is carried out:
  saveItem returns true, the database holds the item, the list in memory holds the
  optimistic update, and the only requests after the write are the read and the write of
  the ledger (nothing is deleted or written back), whatever becomes of these two; when one
  of them fails the ledger is as before. In the GitHub variant saveItem returns what the
  write of the item's file returned, whatever the requests for \<^verbatim>\<open>meta.json\<close> give,
  and when it returns true the folder holds the file with the item.
\<close>

theorem ledger_update_is_best_effort:
  "(ok (SetDoc ''content'' (itemId item)) \<longrightarrow>
      fst (saveItem True ok item w)
      \<and> map_of (contentDocs (db (snd (saveItem True ok item w)))) (itemId item) = Some item
      \<and> items (hook (snd (saveItem True ok item w))) = saveItemUpdater item (items (hook w))
      \<and> (\<exists>rs. trace (snd (saveItem True ok item w))
                 = trace w @ [SetItems, Remote (SetDoc ''content'' (itemId item))] @ rs
               \<and> set rs \<subseteq> {Remote (GetDoc ''config'' ''meta''), Remote (SetDoc ''config'' ''meta'')})
      \<and> (\<not> ok (GetDoc ''config'' ''meta'') \<or> \<not> ok (SetDoc ''config'' ''meta'') \<longrightarrow>
           configMeta (db (snd (saveItem True ok item w))) = configMeta (db w)))
   \<and> fst (ghSaveItem env True item gw)
       = accepts env (PUT (itemPath env item)
           (map_option snd (fst (getFileContent env (itemPath env item) gw))))
   \<and> hook (snd (ghSaveItem env True item gw))
       = (hook gw)\<lparr>items := saveItemUpdater item (items (hook gw))\<rparr>
   \<and> (fst (ghSaveItem env True item gw) \<longrightarrow>
        (\<exists>f\<in>set (db (snd (ghSaveItem env True item gw))).
            ghPath f = itemPath env item \<and> ghBlob f = ItemBlob item))"
  by (rule conjI[OF saveItem_written ghSaveItem_github])

text \<open>
  Only the write of the quote is carried out, the read of the ledger fails: saveItem
  returns true, the database holds the quote and the ledger is as before.
\<close>

theorem ledger_update_is_best_effort_witness:
  "onlyContent (SetDoc ''content'' (itemId quote3))
   \<and> \<not> onlyContent (GetDoc ''config'' ''meta'')
   \<and> fst (saveItem True onlyContent quote3 exampleWorld)
   \<and> map_of (contentDocs (db (snd (saveItem True onlyContent quote3 exampleWorld)))) ''3'' = Some quote3
   \<and> configMeta (db (snd (saveItem True onlyContent quote3 exampleWorld))) = configMeta (db exampleWorld)
   \<and> fst (ghSaveItem (exampleEnv\<lparr>accepts := onlyItemFile\<rparr>) True quote3 exampleRepo)"
proof -
  note t = ledger_update_is_best_effort[of onlyContent quote3 exampleWorld
      "exampleEnv\<lparr>accepts := onlyItemFile\<rparr>" exampleRepo]
  have a: "onlyContent (SetDoc ''content'' (itemId quote3))"
    and b: "\<not> onlyContent (GetDoc ''config'' ''meta'')"
    by (simp_all add: onlyContent_def quote3_def)
  have p: "itemPath (exampleEnv\<lparr>accepts := onlyItemFile\<rparr>) quote3 = ''content/quote-3.json''"
    by (simp add: itemPath_def generateFilename_def exampleEnv_def quote3_def Let_def)
  have g: "fst (getFileContent (exampleEnv\<lparr>accepts := onlyItemFile\<rparr>) ''content/quote-3.json'' exampleRepo) = None"
    by (simp add: getFileContent_def Let_def exampleEnv_def onlyItemFile_def)
  have c: "accepts (exampleEnv\<lparr>accepts := onlyItemFile\<rparr>)
             (PUT (itemPath (exampleEnv\<lparr>accepts := onlyItemFile\<rparr>) quote3)
               (map_option snd (fst (getFileContent (exampleEnv\<lparr>accepts := onlyItemFile\<rparr>)
                  (itemPath (exampleEnv\<lparr>accepts := onlyItemFile\<rparr>) quote3) exampleRepo))))"
    unfolding p g by (simp add: exampleEnv_def onlyItemFile_def)
  from t a b c show ?thesis by (simp add: quote3_def)
qed

text \<open>
  The claim C3 as it is written fails on deleteItem: when the backend does not carry out
  the deletion, deleteItem returns false and the ledger still holds the id.
\<close>

theorem deleteItem_failed_backend_keeps_ledger_counterexample:
  "configMeta (db exampleWorld) = Some \<lparr>contentOrder = [''1'', ''2'']\<rparr>
   \<and> configMeta (db (snd (deleteItem True unreachable ''1'' exampleWorld)))
        = Some \<lparr>contentOrder = [''1'', ''2'']\<rparr>
   \<and> \<not> fst (deleteItem True unreachable ''1'' exampleWorld)"
  by (simp add: deleteItem_def deleteItemRemote_def deleteDocContent_def unreachable_def
      sent_def setItems_def exampleWorld_def exampleDb_def Let_def)

text \<open>
  Claim C3, amended. For every item list, ledger and id passed to deleteItem:
  \<^item> the list in memory after the call is the list before without the items of that id,
    the other items in their order, whatever the backend answers;
  \<^item> when a backend is configured and the deletion, the read of the ledger and its write
    are carried out, deleteItem returns true and the ledger is the ledger before without
    the id, the other ids in their order; whenever deleteItem returns true with a backend,
    the ledger is that;
  \<^item> in every other case (no backend, or one of the three requests fails) the ledger is as
    before;
  \<^item> in the GitHub variant the list in memory is filtered in the same way; the ledger
    after the call is the ledger before, or the ledger before without the id; and it is
    the ledger before without the id when every request is accepted and a content file of
    the folder holds an item of that id.
\<close>

theorem deleteItem_removes_item_and_ledger_entry:
  "items (hook (snd (deleteItem c ok k w))) = filter (\<lambda>i. itemId i \<noteq> k) (items (hook w))
   \<and> (\<forall>i\<in>set (items (hook (snd (deleteItem c ok k w)))). itemId i \<noteq> k)
   \<and> (c \<and> ok (DeleteDoc ''content'' k) \<and> ok (GetDoc ''config'' ''meta'')
          \<and> ok (SetDoc ''config'' ''meta'') \<longrightarrow>
        fst (deleteItem c ok k w) \<and>
        map_option contentOrder (configMeta (db (snd (deleteItem c ok k w))))
          = map_option (\<lambda>m. filter (\<lambda>i. i \<noteq> k) (contentOrder m)) (configMeta (db w)))
   \<and> (c \<and> fst (deleteItem c ok k w) \<longrightarrow>
        map_option contentOrder (configMeta (db (snd (deleteItem c ok k w))))
          = map_option (\<lambda>m. filter (\<lambda>i. i \<noteq> k) (contentOrder m)) (configMeta (db w)))
   \<and> (\<not> (c \<and> ok (DeleteDoc ''content'' k) \<and> ok (GetDoc ''config'' ''meta'')
            \<and> ok (SetDoc ''config'' ''meta'')) \<longrightarrow>
        configMeta (db (snd (deleteItem c ok k w))) = configMeta (db w))
   \<and> items (hook (snd (ghDeleteItem env c k gw))) = filter (\<lambda>i. itemId i \<noteq> k) (items (hook gw))
   \<and> (folder (db gw) \<longrightarrow>
        ghLedger env (db (snd (ghDeleteItem env c k gw))) = ghLedger env (db gw)
        \<or> ghLedger env (db (snd (ghDeleteItem env c k gw)))
            = map_option (filter (\<lambda>i. i \<noteq> k)) (ghLedger env (db gw)))
   \<and> ((\<forall>r. accepts env r) \<and> folder (db gw)
        \<and> (\<exists>f\<in>set (db gw). isContentFile f \<and> (\<exists>i. ghBlob f = ItemBlob i \<and> itemId i = k)) \<longrightarrow>
        fst (ghDeleteItem env True k gw)
        \<and> ghLedger env (db (snd (ghDeleteItem env True k gw)))
            = map_option (filter (\<lambda>i. i \<noteq> k)) (ghLedger env (db gw)))"
proof -
  have 1: "items (hook (snd (deleteItem c ok k w))) = filter (\<lambda>i. itemId i \<noteq> k) (items (hook w))"
    by (simp add: deleteItem_hook deleteItemUpdater_def)
  have 2: "\<forall>i\<in>set (items (hook (snd (deleteItem c ok k w)))). itemId i \<noteq> k"
    unfolding 1 by simp
  have 3: "c \<and> ok (DeleteDoc ''content'' k) \<and> ok (GetDoc ''config'' ''meta'')
          \<and> ok (SetDoc ''config'' ''meta'') \<longrightarrow>
        fst (deleteItem c ok k w) \<and>
        map_option contentOrder (configMeta (db (snd (deleteItem c ok k w))))
          = map_option (\<lambda>m. filter (\<lambda>i. i \<noteq> k) (contentOrder m)) (configMeta (db w))"
    using deleteItem_result[of ok k w]
    by (cases "configMeta (db w)") (auto simp: deleteItem_ledger)
  have 4: "c \<and> fst (deleteItem c ok k w) \<longrightarrow>
        map_option contentOrder (configMeta (db (snd (deleteItem c ok k w))))
          = map_option (\<lambda>m. filter (\<lambda>i. i \<noteq> k) (contentOrder m)) (configMeta (db w))"
    using deleteItem_result[of ok k w]
    by (cases "configMeta (db w)") (auto simp: deleteItem_ledger)
  have 5: "\<not> (c \<and> ok (DeleteDoc ''content'' k) \<and> ok (GetDoc ''config'' ''meta'')
            \<and> ok (SetDoc ''config'' ''meta'')) \<longrightarrow>
        configMeta (db (snd (deleteItem c ok k w))) = configMeta (db w)"
    by (simp add: deleteItem_ledger)
  note g = ghDeleteItem_effect[of env c k gw]
  from g have 6: "items (hook (snd (ghDeleteItem env c k gw))) = filter (\<lambda>i. itemId i \<noteq> k) (items (hook gw))"
    by (rule conjunct1)
  from g have 7: "folder (db gw) \<longrightarrow>
        ghLedger env (db (snd (ghDeleteItem env c k gw))) = ghLedger env (db gw)
        \<or> ghLedger env (db (snd (ghDeleteItem env c k gw)))
            = map_option (filter (\<lambda>i. i \<noteq> k)) (ghLedger env (db gw))"
    by (simp add: folder_def)
  have 8: "(\<forall>r. accepts env r) \<and> folder (db gw)
        \<and> (\<exists>f\<in>set (db gw). isContentFile f \<and> (\<exists>i. ghBlob f = ItemBlob i \<and> itemId i = k)) \<longrightarrow>
        fst (ghDeleteItem env True k gw)
        \<and> ghLedger env (db (snd (ghDeleteItem env True k gw)))
            = map_option (filter (\<lambda>i. i \<noteq> k)) (ghLedger env (db gw))"
    using ghDeleteItem_removes[of env gw k] by blast
  show ?thesis by (intro conjI 1 2 3 4 5 6 7 8)
qed

text \<open>
  With a backend that works, the id "1" leaves the list in memory and the ledger; without
  a backend it leaves the list in memory and the ledger is as before; in the GitHub
  variant the id "3" leaves the ledger of \<^verbatim>\<open>meta.json\<close>.
\<close>

theorem deleteItem_removes_item_and_ledger_entry_witness:
  "fst (deleteItem True reachable ''1'' exampleWorld)
   \<and> map itemId (items (hook (snd (deleteItem True reachable ''1'' exampleWorld)))) = [''2'']
   \<and> map_option contentOrder (configMeta (db (snd (deleteItem True reachable ''1'' exampleWorld))))
       = Some [''2'']
   \<and> map itemId (items (hook (snd (deleteItem False reachable ''1'' exampleWorld)))) = [''2'']
   \<and> map_option contentOrder (configMeta (db (snd (deleteItem False reachable ''1'' exampleWorld))))
       = Some [''1'', ''2'']
   \<and> fst (ghDeleteItem exampleEnv True ''3'' exampleRepo)
   \<and> ghLedger exampleEnv (db (snd (ghDeleteItem exampleEnv True ''3'' exampleRepo))) = Some [''1'']"
proof -
  note t = deleteItem_removes_item_and_ledger_entry[of True reachable "''1''" exampleWorld
      exampleEnv exampleRepo]
  have a: "True \<and> reachable (DeleteDoc ''content'' ''1'') \<and> reachable (GetDoc ''config'' ''meta'')
          \<and> reachable (SetDoc ''config'' ''meta'')"
    by (simp add: reachable_def)
  from t have i: "items (hook (snd (deleteItem True reachable ''1'' exampleWorld)))
      = filter (\<lambda>i. itemId i \<noteq> ''1'') (items (hook exampleWorld))" by (rule conjunct1)
  from t a have l: "fst (deleteItem True reachable ''1'' exampleWorld) \<and>
        map_option contentOrder (configMeta (db (snd (deleteItem True reachable ''1'' exampleWorld))))
          = map_option (\<lambda>m. filter (\<lambda>i. i \<noteq> ''1'') (contentOrder m)) (configMeta (db exampleWorld))"
    by blast
  note v = deleteItem_removes_item_and_ledger_entry[of False reachable "''1''" exampleWorld
      exampleEnv exampleRepo]
  have n: "\<not> (False \<and> reachable (DeleteDoc ''content'' ''1'') \<and> reachable (GetDoc ''config'' ''meta'')
          \<and> reachable (SetDoc ''config'' ''meta''))"
    by simp
  from v have vi: "items (hook (snd (deleteItem False reachable ''1'' exampleWorld)))
      = filter (\<lambda>i. itemId i \<noteq> ''1'') (items (hook exampleWorld))" by (rule conjunct1)
  from v n have vl: "configMeta (db (snd (deleteItem False reachable ''1'' exampleWorld)))
      = configMeta (db exampleWorld)"
    by blast
  note u = deleteItem_removes_item_and_ledger_entry[of True reachable "''3''" exampleWorld
      exampleEnv exampleRepo]
  have b: "(\<forall>r. accepts exampleEnv r) \<and> folder (db exampleRepo)
        \<and> (\<exists>f\<in>set (db exampleRepo). isContentFile f \<and> (\<exists>i. ghBlob f = ItemBlob i \<and> itemId i = ''3''))"
    by (simp add: exampleEnv_def reachable_def exampleRepo_def folder_def fileName_def
        isContentFile_def quote3_def suffix_to_prefix)
  from u b have g: "fst (ghDeleteItem exampleEnv True ''3'' exampleRepo)
        \<and> ghLedger exampleEnv (db (snd (ghDeleteItem exampleEnv True ''3'' exampleRepo)))
            = map_option (filter (\<lambda>i. i \<noteq> ''3'')) (ghLedger exampleEnv (db exampleRepo))"
    by blast
  have gl: "ghLedger exampleEnv (db exampleRepo) = Some [''3'', ''1'']"
    by (simp add: ghLedger_def exampleRepo_def exampleEnv_def metaPath_def)
  from i l vi vl g gl show ?thesis
    by (simp add: exampleWorld_def exampleDb_def DEFAULT_CONTENT_def)
qed

end
